(* ===== verification/Prelude.thy ===== *)
theory Prelude
  imports
    Main
    "HOL-Library.Word"
    "HOL-Library.AList"
    "HOL-Library.Char_ord"
    "HOL-Library.List_Lexorder"
    "HOL-Library.Sublist"
    "HOL-Library.Multiset"
begin

text \<open>
  Shared vocabulary of the development: the results of fallible and panicking Rust code, the
  state-passing actions in which asynchronous functions are written, the locale of effect
  orders that carries every frame and trace argument, and the few facts about strings and
  association lists that the components share.
\<close>

section \<open>Results, panics and actions\<close>

text \<open>
  A Rust function that returns \<open>Result<T, E>\<close> can also panic (\<open>unwrap\<close>, \<open>expect\<close>, checked
  arithmetic in the test profile). Both ways out are values here; the string of \<open>Panic\<close> is
  the panic message. Code that only returns a \<open>Result\<close> and cannot panic uses the sum type
  \<open>'e + 'a\<close>.
\<close>

datatype ('e, 'a) result = Ok 'a | Err 'e | Panic string

type_synonym ('s, 'e, 'a) action = "'s \<Rightarrow> ('e, 'a) result \<times> 's"

definition returnR :: "'a \<Rightarrow> ('s, 'e, 'a) action" where
  "returnR a = (\<lambda>s. (Ok a, s))"

definition failR :: "'e \<Rightarrow> ('s, 'e, 'a) action" where
  "failR e = (\<lambda>s. (Err e, s))"

definition panicR :: "string \<Rightarrow> ('s, 'e, 'a) action" where
  "panicR p = (\<lambda>s. (Panic p, s))"

text \<open>\<open>match m { Ok(a) => ok, Err(e) => err }\<close>: a panic of \<open>m\<close> goes through.\<close>

definition matchR ::
  "('s, 'e, 'a) action \<Rightarrow> ('a \<Rightarrow> ('s, 'f, 'b) action) \<Rightarrow> ('e \<Rightarrow> ('s, 'f, 'b) action)
   \<Rightarrow> ('s, 'f, 'b) action" where
  "matchR m ok err = (\<lambda>s. case m s of
      (Ok a, s') \<Rightarrow> ok a s'
    | (Err e, s') \<Rightarrow> err e s'
    | (Panic p, s') \<Rightarrow> (Panic p, s'))"

text \<open>The \<open>?\<close> operator, \<open>map_err\<close>, and sequencing after a function that returns no error.\<close>

definition bindR :: "('s, 'e, 'a) action \<Rightarrow> ('a \<Rightarrow> ('s, 'e, 'b) action) \<Rightarrow> ('s, 'e, 'b) action" where
  "bindR m f = matchR m f failR"

definition map_err :: "('e \<Rightarrow> 'f) \<Rightarrow> ('s, 'e, 'a) action \<Rightarrow> ('s, 'f, 'a) action" where
  "map_err g m = matchR m returnR (\<lambda>e. failR (g e))"

definition liftE :: "'e + 'a \<Rightarrow> ('s, 'e, 'a) action" where
  "liftE r = (case r of Inl e \<Rightarrow> failR e | Inr a \<Rightarrow> returnR a)"

definition liftR :: "('e, 'a) result \<Rightarrow> ('s, 'e, 'a) action" where
  "liftR r = (\<lambda>s. (r, s))"

definition reads :: "('s \<Rightarrow> 'x) \<Rightarrow> ('x \<Rightarrow> ('s, 'e, 'a) action) \<Rightarrow> ('s, 'e, 'a) action" where
  "reads f k = (\<lambda>s. k (f s) s)"

definition modify :: "('s \<Rightarrow> 's) \<Rightarrow> ('s, 'e, unit) action" where
  "modify g = (\<lambda>s. (Ok (), g s))"

text \<open>\<open>for x in xs { body }\<close>, and a list of futures run to their ends one after the other.\<close>

primrec forR :: "'x list \<Rightarrow> ('x \<Rightarrow> ('s, 'e, unit) action) \<Rightarrow> ('s, 'e, unit) action" where
  "forR [] body = returnR ()"
| "forR (x # xs) body = bindR (body x) (\<lambda>_. forR xs body)"

primrec run_all :: "('s, 'e, 'a) action list \<Rightarrow> ('s, 'f, ('e + 'a) list) action" where
  "run_all [] = returnR []"
| "run_all (m # ms) =
     matchR m
       (\<lambda>a. bindR (run_all ms) (\<lambda>rs. returnR (Inr a # rs)))
       (\<lambda>e. bindR (run_all ms) (\<lambda>rs. returnR (Inl e # rs)))"

text \<open>
  \<open>join_all\<close> polls all its futures and collects every result at the index of its future. In which order
  they get to run is up to the runtime and the daemon: \<open>order n s\<close> lists the numbers of those that run
  first, and the others follow.
\<close>

definition in_order :: "nat list \<Rightarrow> nat \<Rightarrow> nat list" where
  "in_order ks n = remdups (filter (\<lambda>k. k < n) ks) @ filter (\<lambda>k. k \<notin> set ks) [0..<n]"

definition by_index :: "nat list \<Rightarrow> 'a list \<Rightarrow> nat \<Rightarrow> 'a list" where
  "by_index ks rs n = map (\<lambda>i. the (map_of (zip ks rs) i)) [0..<n]"

definition join_all ::
  "(nat \<Rightarrow> 's \<Rightarrow> nat list) \<Rightarrow> ('s, 'e, 'a) action list \<Rightarrow> ('s, 'f, ('e + 'a) list) action" where
  "join_all order ms = reads (\<lambda>s. in_order (order (length ms) s) (length ms)) (\<lambda>ks.
     bindR (run_all (map ((!) ms) ks)) (\<lambda>rs. returnR (by_index ks rs (length ms))))"

text \<open>\<open>let res = m.await;\<close>, looked at later: the error becomes a value, a panic goes through.\<close>

definition attempt :: "('s, 'e, 'a) action \<Rightarrow> ('s, 'f, 'e + 'a) action" where
  "attempt m = matchR m (\<lambda>a. returnR (Inr a)) (\<lambda>e. returnR (Inl e))"

named_theorems action_defs

lemmas [action_defs] = returnR_def failR_def panicR_def matchR_def bindR_def map_err_def
  liftE_def liftR_def reads_def modify_def

lemmas ret_defs = returnR_def failR_def panicR_def

lemma matchR_cases:
  assumes "matchR m ok err s = (r, s')"
  obtains a s1 where "m s = (Ok a, s1)" "ok a s1 = (r, s')"
  | e s1 where "m s = (Err e, s1)" "err e s1 = (r, s')"
  | p where "m s = (Panic p, s')" "r = Panic p"
  using assms by (auto simp: matchR_def split: prod.splits result.splits)

lemma bindR_Ok:
  assumes "bindR m f s = (Ok b, s')"
  obtains a s1 where "m s = (Ok a, s1)" "f a s1 = (Ok b, s')"
  using assms by (auto simp: bindR_def matchR_def failR_def split: prod.splits result.splits)

lemma bindR_eq [simp]:
  "m s = (Ok a, s') \<Longrightarrow> bindR m f s = f a s'"
  "m s = (Err e, s') \<Longrightarrow> bindR m f s = (Err e, s')"
  "m s = (Panic p, s') \<Longrightarrow> bindR m f s = (Panic p, s')"
  by (simp_all add: action_defs)

lemma matchR_eq [simp]:
  "m s = (Ok a, s') \<Longrightarrow> matchR m ok err s = ok a s'"
  "m s = (Err e, s') \<Longrightarrow> matchR m ok err s = err e s'"
  "m s = (Panic p, s') \<Longrightarrow> matchR m ok err s = (Panic p, s')"
  by (simp_all add: action_defs)

lemma run_all_no_error: "run_all ms s \<noteq> (Err b, t)"
  by (induction ms arbitrary: s) (auto simp: ret_defs bindR_def elim!: matchR_cases)

lemma run_all_length: "run_all ms s = (Ok rs, t) \<Longrightarrow> length rs = length ms"
  by (induction ms arbitrary: s rs) (auto simp: ret_defs elim!: matchR_cases bindR_Ok)

lemma in_order [simp]:
  "distinct (in_order ks n)" "set (in_order ks n) = {..<n}" "length (in_order ks n) = n"
  "in_order [] n = [0..<n]"
proof -
  show d: "distinct (in_order ks n)" and s: "set (in_order ks n) = {..<n}"
    by (auto simp: in_order_def)
  show "length (in_order ks n) = n" using distinct_card [OF d] s by simp
qed (simp add: in_order_def)

lemma by_index_nth:
  assumes "distinct ks" and "length rs = length ks" and "j < length ks" and "ks ! j < n"
  shows "by_index ks rs n ! (ks ! j) = rs ! j"
  using assms by (simp add: by_index_def map_of_zip_nth)

lemma in_order_nth:
  assumes "i < n"
  obtains j where "j < n" and "in_order ks n ! j = i"
  using assms in_order(2,3) [of ks n] by (metis in_set_conv_nth lessThan_iff)

lemma by_index_in_order:
  assumes "length rs = n"
  shows "set (by_index (in_order ks n) rs n) = set rs"
    and "length xs = n \<Longrightarrow> list_all2 P (map ((!) xs) (in_order ks n)) rs \<Longrightarrow>
      list_all2 P xs (by_index (in_order ks n) rs n)"
proof -
  have nth: "by_index (in_order ks n) rs n ! (in_order ks n ! j) = rs ! j" "in_order ks n ! j < n"
    if "j < n" for j
    using that assms nth_mem [of j "in_order ks n"] by (simp_all add: by_index_nth)
  show "set (by_index (in_order ks n) rs n) = set rs" (is "set ?r = _")
  proof
    have "?r ! i \<in> set rs" if i: "i < n" for i
    proof -
      obtain j where "j < n" "in_order ks n ! j = i" using i by (rule in_order_nth)
      with nth(1) [of j] assms show ?thesis by auto
    qed
    then show "set ?r \<subseteq> set rs" by (auto simp: in_set_conv_nth by_index_def)
    have "rs ! j \<in> set ?r" if j: "j < n" for j
      using nth [OF j] by (metis by_index_def diff_zero length_map length_upt nth_mem)
    then show "set rs \<subseteq> set ?r" using assms by (auto simp: in_set_conv_nth)
  qed
  show "list_all2 P xs (by_index (in_order ks n) rs n)"
    if "length xs = n" "list_all2 P (map ((!) xs) (in_order ks n)) rs"
    unfolding list_all2_conv_all_nth
  proof (intro conjI allI impI)
    show "length xs = length (by_index (in_order ks n) rs n)" using that(1) by (simp add: by_index_def)
    fix i
    assume "i < length xs"
    then have "i < n" using that(1) by simp
    then obtain j where "j < n" "in_order ks n ! j = i" by (rule in_order_nth)
    with nth(1) [of j] list_all2_nthD [OF that(2), of j] show "P (xs ! i) (by_index (in_order ks n) rs n ! i)"
      by simp
  qed
qed

lemma map_in_order: "length xs = n \<Longrightarrow> mset (map ((!) xs) (in_order ks n)) = mset xs"
proof -
  assume n: "length xs = n"
  have "mset (in_order ks n) = mset [0..<n]"
    by (rule set_eq_iff_mset_eq_distinct [THEN iffD1]) auto
  then have "mset (map ((!) xs) (in_order ks n)) = mset (map ((!) xs) [0..<n])" by (simp only: mset_map)
  also have "map ((!) xs) [0..<n] = xs" using n map_nth by blast
  finally show ?thesis .
qed

lemma join_all_no_error: "join_all order ms s \<noteq> (Err b, t)"
  by (auto simp: join_all_def reads_def ret_defs bindR_def run_all_no_error elim!: matchR_cases)

lemma join_all_Ok:
  assumes "join_all order ms s = (Ok rs :: ('f, _) result, s')"
  obtains ks rs' where "run_all (map ((!) ms) (in_order ks (length ms))) s = (Ok rs' :: ('f, _) result, s')"
    and "rs = by_index (in_order ks (length ms)) rs' (length ms)" and "length rs' = length ms"
proof -
  let ?ks = "in_order (order (length ms) s) (length ms)"
  obtain rs' where "run_all (map ((!) ms) ?ks) s = (Ok rs' :: ('f, _) result, s')"
    "rs = by_index ?ks rs' (length ms)"
    using assms by (auto simp: join_all_def reads_def ret_defs elim!: bindR_Ok)
  with that [of "order (length ms) s" rs'] show thesis by (simp add: run_all_length)
qed

lemma join_all_in_sequence:
  assumes "order (length ms) s = []"
  shows "(join_all order ms :: ('s, 'f, ('e + 'a) list) action) s = run_all ms s"
proof -
  have *: "by_index [0..<length ms] rs (length ms) = rs" if "length rs = length ms" for rs :: "('e + 'a) list"
    using that by_index_nth [of "[0..<length ms]" rs _ "length ms"]
    by (intro nth_equalityI) (simp_all add: by_index_def)
  obtain r t where r: "(run_all ms :: ('s, 'f, ('e + 'a) list) action) s = (r, t)" by fastforce
  show ?thesis
    using assms r by (cases r) (simp_all add: join_all_def reads_def map_nth returnR_def * run_all_length [of ms s _ t])
qed

lemma attempt_eq [simp]:
  "m s = (Ok a, s') \<Longrightarrow> attempt m s = (Ok (Inr a), s')"
  "m s = (Err e, s') \<Longrightarrow> attempt m s = (Ok (Inl e), s')"
  "m s = (Panic p, s') \<Longrightarrow> attempt m s = (Panic p, s')"
  by (simp_all add: attempt_def returnR_def)

lemma attempt_Ok:
  assumes "attempt m s = (Ok x, s')"
  obtains a where "m s = (Ok a, s')" "x = Inr a" | e where "m s = (Err e, s')" "x = Inl e"
  using assms by (auto simp: attempt_def ret_defs elim!: matchR_cases)

section \<open>Effect orders\<close>

text \<open>
  What an action may do to the state is a preorder on states: "the trace only grows, by requests
  of this kind", "this registry is unchanged". Every combinator above keeps an action within
  such an order, so a frame property of a handler is one application of these rules.
\<close>

definition within :: "('s \<Rightarrow> 's \<Rightarrow> bool) \<Rightarrow> ('s \<Rightarrow> 'a \<times> 's) \<Rightarrow> bool" where
  "within rel m \<longleftrightarrow> (\<forall>s. rel s (snd (m s)))"

lemma withinI [intro?]: "(\<And>s. rel s (snd (m s))) \<Longrightarrow> within rel m"
  by (simp add: within_def)

lemma withinD: "within rel m \<Longrightarrow> m s = (r, s') \<Longrightarrow> rel s s'"
  by (metis snd_conv within_def)

locale effect_order =
  fixes rel :: "'s \<Rightarrow> 's \<Rightarrow> bool"
  assumes rel_refl: "rel s s"
    and rel_trans: "rel s t \<Longrightarrow> rel t u \<Longrightarrow> rel s u"
begin

lemma pureI: "within rel (returnR a)" "within rel (failR e)" "within rel (panicR p)"
  by (simp_all add: within_def action_defs rel_refl)

lemma liftI: "within rel (liftE r)"
  by (cases r) (simp_all add: liftE_def pureI)

lemma liftRI: "within rel (liftR r)"
  by (simp add: within_def liftR_def rel_refl)

lemma matchI:
  assumes "within rel m" and "\<And>a. within rel (ok a)" and "\<And>e. within rel (err e)"
  shows "within rel (matchR m ok err)"
proof
  fix s
  obtain r s' where m: "m s = (r, s')" by (cases "m s")
  have "rel s s'" using assms(1) m by (rule withinD)
  moreover have "rel s' (snd (ok a s'))" "rel s' (snd (err e s'))" for a e
    using assms(2,3) by (simp_all add: within_def)
  ultimately show "rel s (snd (matchR m ok err s))"
    using m by (cases r) (auto intro: rel_trans)
qed

lemma bindI: "within rel m \<Longrightarrow> (\<And>a. within rel (f a)) \<Longrightarrow> within rel (bindR m f)"
  unfolding bindR_def by (intro matchI pureI)

lemma map_errI: "within rel m \<Longrightarrow> within rel (map_err g m)"
  unfolding map_err_def by (intro matchI pureI)

lemma attemptI: "within rel m \<Longrightarrow> within rel (attempt m)"
  unfolding attempt_def by (intro matchI pureI)

lemma readsI: "(\<And>x. within rel (k x)) \<Longrightarrow> within rel (reads f k)"
  by (simp add: within_def reads_def)

lemma modifyI: "(\<And>s. rel s (g s)) \<Longrightarrow> within rel (modify g)"
  by (simp add: within_def modify_def)

lemma forI: "(\<And>x. x \<in> set xs \<Longrightarrow> within rel (body x)) \<Longrightarrow> within rel (forR xs body)"
  by (induction xs) (auto intro!: pureI bindI)

lemma run_allI: "(\<And>m. m \<in> set ms \<Longrightarrow> within rel m) \<Longrightarrow> within rel (run_all ms)"
  by (induction ms) (auto intro!: pureI bindI matchI)

lemma join_allI:
  assumes "\<And>m. m \<in> set ms \<Longrightarrow> within rel m"
  shows "within rel (join_all order ms)"
proof
  fix s
  let ?ks = "in_order (order (length ms) s) (length ms)"
  have "within rel (bindR (run_all (map ((!) ms) ?ks)) (\<lambda>rs. returnR (by_index ?ks rs (length ms))))"
    by (intro bindI pureI run_allI assms) auto
  then show "rel s (snd (join_all order ms s))"
    unfolding within_def join_all_def reads_def by blast
qed

lemma ifI: "(b \<Longrightarrow> within rel m) \<Longrightarrow> (\<not> b \<Longrightarrow> within rel n) \<Longrightarrow> within rel (if b then m else n)"
  by simp

lemma optionI:
  "(x = None \<Longrightarrow> within rel m) \<Longrightarrow> (\<And>y. x = Some y \<Longrightarrow> within rel (f y)) \<Longrightarrow>
   within rel (case x of None \<Rightarrow> m | Some y \<Rightarrow> f y)"
  by (cases x) auto

lemma prodI: "(\<And>a b. x = (a, b) \<Longrightarrow> within rel (f a b)) \<Longrightarrow> within rel (case x of (a, b) \<Rightarrow> f a b)"
  by (cases x) auto

lemmas rules = pureI liftI liftRI bindI matchI map_errI attemptI readsI modifyI forI join_allI ifI optionI prodI

end

text \<open>
  The most used effect order: a component of the state is left as it was.
\<close>

definition same :: "('s \<Rightarrow> 'x) \<Rightarrow> 's \<Rightarrow> 's \<Rightarrow> bool" where
  "same f s t \<longleftrightarrow> f t = f s"

interpretation frame: effect_order "same f" for f
  by unfold_locales (simp_all add: same_def)

lemma within_same: "within (same f) m \<Longrightarrow> m s = (r, s') \<Longrightarrow> f s' = f s"
  by (drule (1) withinD) (simp add: same_def)

end
