(* ===== verification/Strings.thy ===== *)
theory Strings
  imports Prelude
begin

text \<open>
  The operations of Rust's standard library on strings that the program uses: formatting and
  parsing of integers, replacement of a character, splitting, ASCII lower case, substring search
  and the parsers of \<open>core::net\<close> for IPv4 and IPv6 addresses. A Rust \<open>String\<close> is its list of
  UTF-8 bytes, so a multi-byte character is several elements of type \<open>char\<close>.
\<close>

section \<open>Characters and substrings\<close>

definition replace_char :: "char \<Rightarrow> char \<Rightarrow> string \<Rightarrow> string" where
  "replace_char a b = map (\<lambda>c. if c = a then b else c)"

lemma replace_char_absent [simp]: "a \<noteq> b \<Longrightarrow> a \<notin> set (replace_char a b s)"
  by (auto simp: replace_char_def)

lemma replace_char_id: "a \<notin> set s \<Longrightarrow> replace_char a b s = s"
  by (auto simp: replace_char_def intro: map_idI)

fun contains_sub :: "string \<Rightarrow> string \<Rightarrow> bool" where
  "contains_sub [] p = (p = [])"
| "contains_sub (c # cs) p = (prefix p (c # cs) \<or> contains_sub cs p)"

lemma contains_sub_sublist: "contains_sub s p = sublist p s"
  by (induction s p rule: contains_sub.induct) (auto simp: sublist_Cons_right)

fun split_char :: "char \<Rightarrow> string \<Rightarrow> string list" where
  "split_char d [] = [[]]"
| "split_char d (c # cs) =
     (if c = d then [] # split_char d cs
      else (case split_char d cs of [] \<Rightarrow> [[c]] | w # ws \<Rightarrow> (c # w) # ws))"

lemma split_char_nonempty [simp]: "split_char d s \<noteq> []"
  by (induction d s rule: split_char.induct) (auto split: list.splits)

lemma split_char_absent: "d \<notin> set s \<Longrightarrow> split_char d s = [s]"
  by (induction d s rule: split_char.induct) auto

lemma split_char_append:
  "d \<notin> set s \<Longrightarrow> split_char d (s @ d # t) = s # split_char d t"
  by (induction s) auto

text \<open>\<open>split(d)\<close> yields one piece for every separator, and one more.\<close>

lemma split_char_length: "length (split_char d s) = Suc (count_list s d)"
  by (induction d s rule: split_char.induct) (auto split: list.splits)

definition ascii_lower :: "string \<Rightarrow> string" where
  "ascii_lower =
     map (\<lambda>c. let n = of_char c :: nat in if 65 \<le> n \<and> n \<le> 90 then char_of (n + 32) else c)"

text \<open>\<open>String::from_utf8\<close> succeeds on exactly the well-formed byte sequences.\<close>

definition byte_in :: "nat \<Rightarrow> nat \<Rightarrow> char \<Rightarrow> bool" where
  "byte_in lo hi c \<longleftrightarrow> lo \<le> of_char c \<and> of_char c \<le> hi"

abbreviation continuation :: "char \<Rightarrow> bool" where
  "continuation \<equiv> byte_in 128 191"

text \<open>The bounds of the second byte after a three or four byte lead.\<close>

definition utf8_second :: "char \<Rightarrow> char \<Rightarrow> bool" where
  "utf8_second a b =
     byte_in (if byte_in 224 224 a then 160 else if byte_in 240 240 a then 144 else 128)
             (if byte_in 237 237 a then 159 else if byte_in 244 244 a then 143 else 191) b"

text \<open>
  One step of the decoder: whether a well-formed character starts here, and how many bytes it, or
  the maximal ill-formed part, takes.
\<close>

fun utf8_step :: "string \<Rightarrow> bool \<times> nat" where
  "utf8_step [] = (False, 1)"
| "utf8_step (a # s) =
     (if byte_in 0 127 a then (True, 1)
      else if byte_in 194 223 a then
        (case s of b # _ \<Rightarrow> if continuation b then (True, 2) else (False, 1) | [] \<Rightarrow> (False, 1))
      else if byte_in 224 244 a then
        (case s of
           [] \<Rightarrow> (False, 1)
         | b # s' \<Rightarrow>
             if \<not> utf8_second a b then (False, 1)
             else (case s' of
                [] \<Rightarrow> (False, 2)
              | c # s'' \<Rightarrow>
                  if \<not> continuation c then (False, 2)
                  else if byte_in 224 239 a then (True, 3)
                  else (case s'' of
                     d # _ \<Rightarrow> if continuation d then (True, 4) else (False, 3)
                   | [] \<Rightarrow> (False, 3))))
      else (False, 1))"

lemma utf8_step_pos [simp]: "0 < snd (utf8_step s)"
  by (cases s) (simp_all split: list.split)

function utf8_valid :: "string \<Rightarrow> bool" where
  "utf8_valid s =
     (if s = [] then True else fst (utf8_step s) \<and> utf8_valid (drop (snd (utf8_step s)) s))"
  by pat_completeness auto
termination
  by (relation "measure length") (auto intro: diff_less)

text \<open>\<open>String::from_utf8_lossy\<close> puts U+FFFD in place of every ill-formed part.\<close>

function utf8_lossy :: "string \<Rightarrow> string" where
  "utf8_lossy s =
     (if s = [] then []
      else (if fst (utf8_step s) then take (snd (utf8_step s)) s else [CHR 0xEF, CHR 0xBF, CHR 0xBD])
           @ utf8_lossy (drop (snd (utf8_step s)) s))"
  by pat_completeness auto
termination
  by (relation "measure length") (auto intro: diff_less)

declare utf8_valid.simps [simp del] utf8_lossy.simps [simp del]

lemma utf8_valid_ascii: "(\<And>c. c \<in> set s \<Longrightarrow> of_char c \<le> (127 :: nat)) \<Longrightarrow> utf8_valid s"
proof (induction s)
  case Nil
  then show ?case by (simp add: utf8_valid.simps)
next
  case (Cons a s)
  then have "byte_in 0 127 a" "utf8_valid s" by (auto simp: byte_in_def)
  then show ?case by (subst utf8_valid.simps) simp
qed

lemma utf8_lossy_valid: "utf8_valid s \<Longrightarrow> utf8_lossy s = s"
proof (induction s rule: utf8_lossy.induct)
  case (1 s)
  show ?case
  proof (cases "s = []")
    case True
    then show ?thesis by (simp add: utf8_lossy.simps)
  next
    case False
    with 1 have "fst (utf8_step s)" "utf8_lossy (drop (snd (utf8_step s)) s) = drop (snd (utf8_step s)) s"
      by (simp_all add: utf8_valid.simps [of s])
    with False show ?thesis by (simp add: utf8_lossy.simps [of s])
  qed
qed

text \<open>\<open>split_once(d)\<close>: the text before and after the first \<open>d\<close>.\<close>

fun split_once :: "char \<Rightarrow> string \<Rightarrow> (string \<times> string) option" where
  "split_once d [] = None"
| "split_once d (c # cs) =
     (if c = d then Some ([], cs) else map_option (\<lambda>(a, b). (c # a, b)) (split_once d cs))"

lemma split_once_append: "d \<notin> set a \<Longrightarrow> split_once d (a @ d # b) = Some (a, b)"
  by (induction a) auto

lemma split_once_None: "split_once d s = None \<longleftrightarrow> d \<notin> set s"
  by (induction s) auto

section \<open>Integers\<close>

definition is_digit :: "char \<Rightarrow> bool" where
  "is_digit c \<longleftrightarrow> 48 \<le> (of_char c :: nat) \<and> (of_char c :: nat) \<le> 57"

definition digit_value :: "char \<Rightarrow> nat" where
  "digit_value c = of_char c - 48"

definition digit_char :: "nat \<Rightarrow> char" where
  "digit_char n = char_of (48 + n)"

fun show_nat :: "nat \<Rightarrow> string" where
  "show_nat n = (if n < 10 then [digit_char n] else show_nat (n div 10) @ [digit_char (n mod 10)])"

declare show_nat.simps [simp del]

lemma digit_char_facts [simp]:
  assumes "n < 10"
  shows "is_digit (digit_char n)" "digit_value (digit_char n) = n"
  using assms
  by (auto simp: is_digit_def digit_value_def digit_char_def of_char_of take_bit_nat_def)

lemma digit_char_simps [simp]:
  "digit_char 0 = CHR ''0''" "digit_char (Suc 0) = CHR ''1''" "digit_char 1 = CHR ''1''"
  "digit_char 2 = CHR ''2''" "digit_char 3 = CHR ''3''" "digit_char 4 = CHR ''4''"
  "digit_char 5 = CHR ''5''" "digit_char 6 = CHR ''6''" "digit_char 7 = CHR ''7''"
  "digit_char 8 = CHR ''8''" "digit_char 9 = CHR ''9''"
  by code_simp+

lemma show_nat_digits: "c \<in> set (show_nat n) \<Longrightarrow> is_digit c"
proof (induction n rule: show_nat.induct)
  case (1 n)
  then show ?case by (cases "n < 10") (auto simp: show_nat.simps [of n])
qed

lemma show_nat_nonempty [simp]: "show_nat n \<noteq> []"
  by (subst show_nat.simps) auto

text \<open>\<open>u32::from_str\<close>: an optional \<open>+\<close>, then decimal digits, each step checked for overflow.\<close>

datatype parse_int_error = EmptyInt | InvalidDigit | PosOverflow

fun display_parse_int_error :: "parse_int_error \<Rightarrow> string" where
  "display_parse_int_error EmptyInt = ''cannot parse integer from empty string''"
| "display_parse_int_error InvalidDigit = ''invalid digit found in string''"
| "display_parse_int_error PosOverflow = ''number too large to fit in target type''"

fun u32_digits :: "nat \<Rightarrow> string \<Rightarrow> parse_int_error + nat" where
  "u32_digits acc [] = Inr acc"
| "u32_digits acc (c # cs) =
     (if \<not> is_digit c then Inl InvalidDigit
      else if 2 ^ 32 \<le> acc * 10 + digit_value c then Inl PosOverflow
      else u32_digits (acc * 10 + digit_value c) cs)"

definition u32_from_str :: "string \<Rightarrow> parse_int_error + 32 word" where
  "u32_from_str s =
     (case s of
        [] \<Rightarrow> Inl EmptyInt
      | c # cs \<Rightarrow>
          if cs = [] \<and> (c = CHR ''+'' \<or> c = CHR ''-'') then Inl InvalidDigit
          else map_sum id of_nat (u32_digits 0 (if c = CHR ''+'' then cs else s)))"

definition show_u32 :: "32 word \<Rightarrow> string" where
  "show_u32 w = show_nat (unat w)"

lemma u32_digits_append:
  "u32_digits acc (xs @ ys) =
     (case u32_digits acc xs of Inl e \<Rightarrow> Inl e | Inr a \<Rightarrow> u32_digits a ys)"
  by (induction acc xs rule: u32_digits.induct) auto

lemma u32_digits_show_nat: "n < 2 ^ 32 \<Longrightarrow> u32_digits 0 (show_nat n) = Inr n"
proof (induction n rule: show_nat.induct)
  case (1 n)
  show ?case
  proof (cases "n < 10")
    case True
    then show ?thesis by (subst show_nat.simps) simp
  next
    case False
    with 1 have "u32_digits 0 (show_nat (n div 10)) = Inr (n div 10)" by simp
    with False 1(2) show ?thesis
      by (subst show_nat.simps) (simp add: u32_digits_append)
  qed
qed

lemma show_nat_no_sign: "show_nat n = c # cs \<Longrightarrow> c \<noteq> CHR ''+'' \<and> c \<noteq> CHR ''-''"
  using show_nat_digits [of c n] by (auto simp: is_digit_def)

lemma u32_from_str_show: "u32_from_str (show_u32 w) = Inr w"
proof -
  obtain c cs where s: "show_nat (unat w) = c # cs"
    using show_nat_nonempty by (cases "show_nat (unat w)") auto
  have "u32_digits 0 (show_nat (unat w)) = Inr (unat w)"
    using unsigned_less [of w] by (intro u32_digits_show_nat) simp
  with s show_nat_no_sign [OF s] show ?thesis
    by (simp add: u32_from_str_def show_u32_def)
qed

lemma show_u32_no_slash [simp]: "CHR ''/'' \<notin> set (show_u32 w)"
  using show_nat_digits [of "CHR ''/''" "unat w"]
  by (auto simp: show_u32_def is_digit_def)

section \<open>IP addresses\<close>

datatype ipv4 = Ipv4 "8 word" "8 word" "8 word" "8 word"

definition UNSPECIFIED :: ipv4 where
  "UNSPECIFIED = Ipv4 0 0 0 0"

datatype ip_addr = V4 ipv4 | V6

definition digit_in :: "nat \<Rightarrow> char \<Rightarrow> nat option" where
  "digit_in radix c =
     (let n = of_char c :: nat;
          v = (if 48 \<le> n \<and> n \<le> 57 then n - 48
               else if 97 \<le> n \<and> n \<le> 122 then n - 87
               else if 65 \<le> n \<and> n \<le> 90 then n - 55 else 36)
      in if v < radix then Some v else None)"

definition read_number :: "nat \<Rightarrow> nat \<Rightarrow> bool \<Rightarrow> nat \<Rightarrow> string \<Rightarrow> (nat \<times> string) option" where
  "read_number radix max_digits allow_zero_prefix bound cs =
     (let ds = takeWhile (\<lambda>c. digit_in radix c \<noteq> None) cs;
          v = foldl (\<lambda>a c. a * radix + the (digit_in radix c)) 0 ds
      in if ds = [] \<or> max_digits < length ds
            \<or> \<not> allow_zero_prefix \<and> hd ds = CHR ''0'' \<and> 1 < length ds \<or> bound \<le> v
         then None else Some (v, drop (length ds) cs))"

definition read_given_char :: "char \<Rightarrow> string \<Rightarrow> string option" where
  "read_given_char c cs = (case cs of [] \<Rightarrow> None | x # xs \<Rightarrow> if x = c then Some xs else None)"

definition read_separator ::
  "char \<Rightarrow> nat \<Rightarrow> (string \<Rightarrow> ('a \<times> string) option) \<Rightarrow> string \<Rightarrow> ('a \<times> string) option" where
  "read_separator sep i p cs =
     (if 0 < i then Option.bind (read_given_char sep cs) p else p cs)"

abbreviation read_octet :: "nat \<Rightarrow> string \<Rightarrow> (nat \<times> string) option" where
  "read_octet i \<equiv> read_separator (CHR ''.'') i (read_number 10 3 False 256)"

definition read_ipv4_addr :: "string \<Rightarrow> (ipv4 \<times> string) option" where
  "read_ipv4_addr s0 =
     Option.bind (read_octet 0 s0) (\<lambda>(a, s1).
     Option.bind (read_octet 1 s1) (\<lambda>(b, s2).
     Option.bind (read_octet 2 s2) (\<lambda>(c, s3).
     Option.bind (read_octet 3 s3) (\<lambda>(d, s4).
     Some (Ipv4 (of_nat a) (of_nat b) (of_nat c) (of_nat d), s4)))))"

text \<open>
  \<open>read_groups\<close> with \<open>k\<close> group slots left, the next one being slot \<open>i\<close>: the number of groups
  read, whether the last two came from an embedded IPv4 address, and the rest of the input.
\<close>

fun read_groups :: "nat \<Rightarrow> nat \<Rightarrow> string \<Rightarrow> nat \<times> bool \<times> string" where
  "read_groups 0 i cs = (i, False, cs)"
| "read_groups (Suc k) i cs =
     (case (if 0 < k then read_separator (CHR '':'') i read_ipv4_addr cs else None) of
        Some (_, rest) \<Rightarrow> (i + 2, True, rest)
      | None \<Rightarrow>
          (case read_separator (CHR '':'') i (read_number 16 4 True 65536) cs of
             Some (_, rest) \<Rightarrow> read_groups k (Suc i) rest
           | None \<Rightarrow> (i, False, cs)))"

definition is_ipv6 :: "string \<Rightarrow> bool" where
  "is_ipv6 cs =
     (let (n, v4, rest) = read_groups 8 0 cs
      in if n = 8 then rest = []
         else if v4 then False
         else (case Option.bind (read_given_char (CHR '':'') rest) (read_given_char (CHR '':'')) of
                 None \<Rightarrow> False
               | Some tail \<Rightarrow> (case read_groups (8 - (n + 1)) 0 tail of (_, _, rest') \<Rightarrow> rest' = [])))"

definition ipv4_from_str :: "string \<Rightarrow> ipv4 option" where
  "ipv4_from_str s =
     (if 15 < length s then None
      else case read_ipv4_addr s of Some (a, []) \<Rightarrow> Some a | _ \<Rightarrow> None)"

definition ip_addr_from_str :: "string \<Rightarrow> ip_addr option" where
  "ip_addr_from_str s =
     (case read_ipv4_addr s of
        Some (a, rest) \<Rightarrow> if rest = [] then Some (V4 a) else None
      | None \<Rightarrow> if is_ipv6 s then Some V6 else None)"

section \<open>Association lists\<close>

text \<open>
  A \<open>HashMap\<close> is an association list; \<open>HashMap::insert\<close> is \<open>AList.update\<close>. The iteration order
  of a hash map is unspecified in Rust: here it is the order of the list.
\<close>

lemma map_of_update [simp]: "map_of (AList.update k v m) = (map_of m)(k \<mapsto> v)"
  by (rule update_conv')

lemma set_fst_update [simp]: "fst ` set (AList.update k v m) = insert k (fst ` set m)"
  by (metis dom_fun_upd dom_map_of_conv_image_fst map_of_update option.distinct(1))

lemma map_of_None_iff: "map_of m k = None \<longleftrightarrow> k \<notin> fst ` set m"
  by (rule map_of_eq_None_iff)

end
