(* ===== verification/Errors.thy ===== *)
theory Errors
  imports Strings
begin

text \<open>
  \<open>src/error.rs\<close> and the container states of \<open>src/docker/container.rs\<close>: the error values of the
  library and their \<open>Display\<close> text, as the \<open>thiserror\<close> attributes write it.
\<close>

section \<open>Container states\<close>

datatype container_state =
    Empty | Created | Running | Paused | Restarting | Removing | Exited | Dead

text \<open>\<open>strum::Display\<close> prints the name of the variant.\<close>

fun display_container_state :: "container_state \<Rightarrow> string" where
  "display_container_state Empty = ''Empty''"
| "display_container_state Created = ''Created''"
| "display_container_state Running = ''Running''"
| "display_container_state Paused = ''Paused''"
| "display_container_state Restarting = ''Restarting''"
| "display_container_state Removing = ''Removing''"
| "display_container_state Exited = ''Exited''"
| "display_container_state Dead = ''Dead''"

lemma display_container_state_inj: "display_container_state a = display_container_state b \<Longrightarrow> a = b"
  by (cases a; cases b) simp_all

text \<open>The daemon's status enumeration (bollard) and the conversion of \<open>impl From\<close>.\<close>

datatype container_state_status_enum =
    EMPTY | CREATED | RUNNING | PAUSED | RESTARTING | REMOVING | EXITED | DEAD

fun container_state_from :: "container_state_status_enum \<Rightarrow> container_state" where
  "container_state_from EMPTY = Empty"
| "container_state_from CREATED = Created"
| "container_state_from RUNNING = Running"
| "container_state_from PAUSED = Paused"
| "container_state_from RESTARTING = Restarting"
| "container_state_from REMOVING = Removing"
| "container_state_from EXITED = Exited"
| "container_state_from DEAD = Dead"

section \<open>Errors\<close>

text \<open>
  The arguments of \<open>ContainerState\<close> are the fields \<open>current\<close> and \<open>tried_to_enter\<close>, those of
  \<open>Pull\<close> are \<open>repository\<close>, \<open>tag\<close> and \<open>error\<close>.
\<close>

datatype docker_test_error =
    ContainerState container_state container_state
  | Daemon string
  | Recoverable string
  | Teardown string
  | Pull string string string
  | Startup string
  | Processing string
  | TestBody string
  | LogWriteError string
  | HostPort string
  | ContainerLogStream string

fun display_error :: "docker_test_error \<Rightarrow> string" where
  "display_error (ContainerState c t) =
     ''tried to enter container state `'' @ display_container_state c @ ''` from state `''
       @ display_container_state t @ ''`''"
| "display_error (Daemon m) = ''docker daemon interaction error `'' @ m @ ''`''"
| "display_error (Recoverable m) = ''recoverable error condition''"
| "display_error (Teardown m) = ''container teardown error''"
| "display_error (Pull r t e) =
     ''pulling image from remote repository failed, repository: '' @ r @ '', tag: '' @ t"
| "display_error (Startup m) = ''startup condition not fulfilled `'' @ m @ ''`''"
| "display_error (Processing m) = ''processing error condition `'' @ m @ ''`''"
| "display_error (TestBody m) = ''test body failure `'' @ m @ ''`''"
| "display_error (LogWriteError m) = ''log write error `'' @ m @ [CHR 0x27]"
| "display_error (HostPort m) = ''host port error `'' @ m @ ''`''"
| "display_error (ContainerLogStream m) = ''failed to follow container log stream `'' @ m @ [CHR 0x27]"

end
