(* ===== verification/State.thy ===== *)
theory State
  imports Errors
begin

text \<open>
  The data of the library, as its structs and enums declare them, and the state in which its
  operations run: the world of the docker daemon (opaque), the requests issued to it so far, the
  cells behind \<open>Arc<RwLock<..>>\<close> and \<open>Arc<Mutex<..>>\<close>, and the two global registries
  \<open>STATIC_CONTAINERS\<close> and \<open>SCOPED_NETWORKS\<close>.
\<close>

section \<open>Images (src/image.rs)\<close>

record registry_credentials =
  rc_address :: string
  rc_username :: string
  rc_password :: string

datatype source =
    Local
  | DockerHub
  | RegistryWithCredentials registry_credentials
  | RegistryWithDockerLogin string

datatype pull_policy = Never | Always | IfNotPresent

text \<open>The field \<open>id: Arc<RwLock<String>>\<close> is the address of a cell: clones of an image share it.\<close>

type_synonym addr = nat

record image =
  img_repository :: string
  img_tag :: string
  img_source :: "source option"
  img_pull_policy :: pull_policy
  img_id :: addr

section \<open>Compositions (src/composition.rs)\<close>

datatype start_policy = Relaxed | Strict

datatype static_management_policy = External | Internal | Dynamic

datatype log_action = Forward | ForwardToFile string | ForwardToStdOut | ForwardToStdErr

datatype log_source = StdErr | StdOut | Both

datatype log_policy = AlwaysLog | OnError | OnStartupError

record log_options =
  lo_action :: log_action
  lo_policy :: log_policy
  lo_source :: log_source

text \<open>
  The readiness conditions of \<open>src/waitfor\<close>. The arguments of \<open>RunningWait\<close> and \<open>ExitedWait\<close>
  are \<open>check_interval\<close> and \<open>max_checks\<close>. A user's own implementation of the trait is
  \<open>CustomWait i\<close>; what it does is a parameter of the model.
\<close>

datatype message_source = Stdout | Stderr

datatype wait_for =
    NoWait
  | RunningWait "64 word" "64 word"
  | ExitedWait "64 word" "64 word"
  | MessageWait string message_source "16 word"
  | CustomWait nat

record composition =
  user_provided_container_name :: "string option"
  network_aliases :: "string list option"
  container_name :: string
  comp_wait :: wait_for
  comp_env :: "(string \<times> string) list"
  comp_cmd :: "string list"
  comp_start_policy :: start_policy
  comp_image :: image
  comp_named_volumes :: "(string \<times> string) list"
  final_named_volume_names :: "string list"
  bind_mounts :: "string list"
  inject_container_name_env :: "(string \<times> string) list"
  comp_port :: "(string \<times> string) list"
  comp_publish_all_ports :: bool
  management :: "static_management_policy option"
  comp_log_options :: "log_options option"
  comp_tmpfs :: "string list"
  comp_privileged :: bool

section \<open>Test configuration (src/dockertest.rs)\<close>

datatype network = Singular | ExternalNet string | Isolated

record docker_test =
  dt_compositions :: "composition list"
  dt_namespace :: string
  dt_default_source :: source
  dt_container_id :: "string option"
  dt_network :: network

section \<open>Containers (src/container.rs, src/container/)\<close>

record pending_container =
  pend_name :: string
  pend_id :: string
  pend_handle :: string
  pend_start_policy :: start_policy
  pend_wait :: "wait_for option"
  pend_is_static :: bool
  pend_static_management_policy :: "static_management_policy option"
  pend_log_options :: "log_options option"
  pend_expected_state :: container_state

text \<open>\<open>HostPortMappings\<close>, and the field \<open>assumed_state: Arc<Mutex<ContainerState>>\<close> as a cell.\<close>

type_synonym host_port_mappings = "(32 word \<times> (ipv4 \<times> 32 word)) list"

record operational_container =
  oper_handle :: string
  oper_id :: string
  oper_name :: string
  oper_ip :: ipv4
  oper_ports :: host_port_mappings
  oper_is_static :: bool
  oper_log_options :: "log_options option"
  oper_assumed_state :: addr

record cleanup_container =
  clean_id :: string
  clean_is_static :: bool
  clean_name :: string
  clean_log_options :: "log_options option"

record static_external_container =
  ext_handle :: string
  ext_id :: string

datatype created_container =
    StaticExternal static_external_container
  | Pending pending_container

section \<open>Global registries (src/static_container/)\<close>

datatype internal_status =
    IOperational operational_container pending_container
  | IPending pending_container
  | ICleaned
  | IFailed docker_test_error "string option"

record internal_container =
  int_status :: internal_status
  completion_counter :: "8 word"

datatype dynamic_status =
    DRunningPrior operational_container
  | DRunning operational_container pending_container
  | DPending pending_container
  | DFailed docker_test_error

datatype dynamic_creation =
    CreateRunningPrior operational_container
  | CreatePending pending_container

datatype network_creation = NetFailed | NetComplete string

text \<open>The registries are hash maps from container names, and from namespaces, behind a lock.\<close>

type_synonym internal_containers = "(string \<times> internal_container) list"
type_synonym external_containers = "(string \<times> operational_container) list"
type_synonym dynamic_containers = "(string \<times> dynamic_status) list"
type_synonym scoped_networks = "(string \<times> network_creation) list"

section \<open>Requests to the daemon\<close>

text \<open>The last two are the writing of forwarded logs, which goes to the process's own streams.\<close>

datatype log_sink = SinkStdout | SinkStderr | SinkFile string

record port_binding =
  pb_host_ip :: "string option"
  pb_host_port :: "string option"

record host_config =
  hc_network_mode :: string
  hc_binds :: "string list"
  hc_port_bindings :: "(string \<times> port_binding list) list"
  hc_publish_all_ports :: bool
  hc_privileged :: bool
  hc_tmpfs :: "(string \<times> string) list"

record container_create_body =
  cb_image :: string
  cb_cmd :: "string list"
  cb_env :: "string list"
  cb_aliases :: "(string \<times> string list) option"
  cb_host_config :: "host_config option"
  cb_exposed_ports :: "string list"

datatype request =
    InspectContainer string
  | CreateContainer string container_create_body
  | StartContainer string
  | StopContainer string
  | RemoveContainer string bool bool
  | PauseContainer string
  | UnpauseContainer string
  | KillContainer string string
  | ContainerLogs string bool bool bool
  | CreateNetwork string
  | RemoveNetwork string
  | ListNetworks string
  | ConnectNetwork string string
  | DisconnectNetwork string string bool
  | InspectImage string
  | CreateImage string string "(string \<times> string \<times> string) option"
  | RemoveVolume string bool
  | CreateFile string
  | WriteLog log_sink string

section \<open>The state\<close>

record 'w sys =
  world :: 'w
  calls :: "request list"
  id_cells :: "string list"
  state_cells :: "container_state list"
  internals :: internal_containers
  externals :: external_containers
  dynamics :: dynamic_containers
  singular :: scoped_networks

text \<open>
  The effect order of traces: requests are only added, and each added one satisfies \<open>R\<close>.
\<close>

definition extends :: "(request \<Rightarrow> bool) \<Rightarrow> 'w sys \<Rightarrow> 'w sys \<Rightarrow> bool" where
  "extends R s t \<longleftrightarrow> (\<exists>rs. calls t = calls s @ rs \<and> list_all R rs)"

abbreviation issues :: "(request \<Rightarrow> bool) \<Rightarrow> ('w sys \<Rightarrow> 'a \<times> 'w sys) \<Rightarrow> bool" where
  "issues R \<equiv> within (extends R)"

interpretation trace: effect_order "extends R" for R
proof
  show "extends R s s" for s :: "'a sys"
    by (simp add: extends_def)
  show "extends R s t \<Longrightarrow> extends R t u \<Longrightarrow> extends R s u" for s t u :: "'a sys"
    by (auto simp: extends_def)
qed

lemma extends_mono: "extends R s t \<Longrightarrow> (\<And>r. R r \<Longrightarrow> R' r) \<Longrightarrow> extends R' s t"
  by (auto simp: extends_def list_all_iff)

lemma issues_mono: "issues R m \<Longrightarrow> (\<And>r. R r \<Longrightarrow> R' r) \<Longrightarrow> issues R' m"
  unfolding within_def by (blast intro: extends_mono)

lemma issues_new:
  assumes "issues R m" and "m s = (a, s')" and "r \<in> set (calls s') - set (calls s)"
  shows "R r"
  using withinD [OF assms(1,2)] assms(3) by (auto simp: extends_def list_all_iff)

end
