(* ===== verification/Client.thy ===== *)
theory Client
  imports State
begin

text \<open>
  The code outside the repository that the library calls, as one record of parameters: the bollard
  client (one function of the daemon's world per endpoint used), the random number generator, the
  passing of time, the order in which joined futures get to run, the JSON and base64 decoders, the file system, the process environment and the user's own readiness
  conditions. Nothing is assumed of them here. \<open>login_entry\<close> reads an entry of \<open>config.json\<close>: it is an error
  when the file does not parse or has no such entry, and a panic when it cannot be indexed.

  Every endpoint is called through \<open>issue\<close>, which records the request in the trace.
\<close>

section \<open>The bollard interface\<close>

datatype b_error = DockerResponseServerError "16 word" string | OtherError string

record inspect_network_settings =
  ns_networks :: "(string \<times> string option) list option"
  ns_ports :: "(string \<times> port_binding list option) list option"

record container_inspect_response =
  ir_id :: "string option"
  ir_state :: "container_state_status_enum option option"
  ir_network_settings :: "inspect_network_settings option"

record network_info =
  ni_id :: "string option"
  ni_name :: "string option"
  ni_created :: "string option"

datatype log_output =
  LogStdErr string | LogStdOut string | LogStdIn string | LogConsole string

text \<open>
  A log stream: its items with their arrival times in milliseconds after the stream was opened,
  and the time at which it closes, if it does.
\<close>

record log_stream =
  ls_items :: "(nat \<times> (b_error + log_output)) list"
  ls_closed :: "nat option"

record 'w bollard =
  b_display :: "b_error \<Rightarrow> string"
  b_debug :: "b_error \<Rightarrow> string"
  b_inspect_container :: "string \<Rightarrow> 'w \<Rightarrow> (b_error + container_inspect_response) \<times> 'w"
  b_create_container :: "string \<Rightarrow> container_create_body \<Rightarrow> 'w \<Rightarrow> (b_error + string) \<times> 'w"
  b_start_container :: "string \<Rightarrow> 'w \<Rightarrow> (b_error + unit) \<times> 'w"
  b_stop_container :: "string \<Rightarrow> 'w \<Rightarrow> (b_error + unit) \<times> 'w"
  b_remove_container :: "string \<Rightarrow> bool \<Rightarrow> bool \<Rightarrow> 'w \<Rightarrow> (b_error + unit) \<times> 'w"
  b_pause_container :: "string \<Rightarrow> 'w \<Rightarrow> (b_error + unit) \<times> 'w"
  b_unpause_container :: "string \<Rightarrow> 'w \<Rightarrow> (b_error + unit) \<times> 'w"
  b_kill_container :: "string \<Rightarrow> string \<Rightarrow> 'w \<Rightarrow> (b_error + unit) \<times> 'w"
  b_logs :: "string \<Rightarrow> bool \<Rightarrow> bool \<Rightarrow> bool \<Rightarrow> 'w \<Rightarrow> log_stream \<times> 'w"
  b_create_network :: "string \<Rightarrow> 'w \<Rightarrow> (b_error + string) \<times> 'w"
  b_remove_network :: "string \<Rightarrow> 'w \<Rightarrow> (b_error + unit) \<times> 'w"
  b_list_networks :: "string \<Rightarrow> 'w \<Rightarrow> (b_error + network_info list) \<times> 'w"
  b_connect_network :: "string \<Rightarrow> string \<Rightarrow> 'w \<Rightarrow> (b_error + unit) \<times> 'w"
  b_disconnect_network :: "string \<Rightarrow> string \<Rightarrow> bool \<Rightarrow> 'w \<Rightarrow> (b_error + unit) \<times> 'w"
  b_inspect_image :: "string \<Rightarrow> 'w \<Rightarrow> (b_error + string option) \<times> 'w"
  b_create_image :: "string \<Rightarrow> string \<Rightarrow> (string \<times> string \<times> string) option \<Rightarrow> 'w
    \<Rightarrow> (b_error + string option) list \<times> 'w"
  b_remove_volume :: "string \<Rightarrow> bool \<Rightarrow> 'w \<Rightarrow> (b_error + unit) \<times> 'w"
  json_message :: "string \<Rightarrow> string + string option"
  read_file :: "string \<Rightarrow> string option"
  login_entry :: "string \<Rightarrow> string \<Rightarrow> (unit, string option) result"
  base64_decode :: "string \<Rightarrow> string option"
  random_range :: "nat \<Rightarrow> nat \<Rightarrow> 'w \<Rightarrow> nat \<times> 'w"
  create_file :: "string \<Rightarrow> 'w \<Rightarrow> (string + unit) \<times> 'w"
  write_sink :: "log_sink \<Rightarrow> string \<Rightarrow> 'w \<Rightarrow> (string + unit) \<times> 'w"
  tick :: "64 word \<Rightarrow> 64 word \<Rightarrow> 'w \<Rightarrow> 'w"
  getenv :: "string \<Rightarrow> string option"
  join_order :: "nat \<Rightarrow> 'w \<Rightarrow> nat list"
  custom_expected_state :: "nat \<Rightarrow> container_state"
  custom_wait :: "nat \<Rightarrow> pending_container \<Rightarrow>
    ('w sys, docker_test_error, operational_container) action"

section \<open>Issuing requests\<close>

definition issue :: "request \<Rightarrow> ('w \<Rightarrow> ('x + 'a) \<times> 'w) \<Rightarrow> ('w sys, 'x, 'a) action" where
  "issue r f = (\<lambda>s. case f (world s) of (x, w) \<Rightarrow>
     (case x of Inl e \<Rightarrow> Err e | Inr a \<Rightarrow> Ok a, s\<lparr>world := w, calls := calls s @ [r]\<rparr>))"

text \<open>An endpoint that answers with a stream, and a step of the world that is no request.\<close>

definition issue_stream :: "request \<Rightarrow> ('w \<Rightarrow> 'a \<times> 'w) \<Rightarrow> ('w sys, 'e, 'a) action" where
  "issue_stream r f = (\<lambda>s. case f (world s) of (x, w) \<Rightarrow>
     (Ok x, s\<lparr>world := w, calls := calls s @ [r]\<rparr>))"

definition in_world :: "('w \<Rightarrow> 'a \<times> 'w) \<Rightarrow> ('w sys, 'e, 'a) action" where
  "in_world f = (\<lambda>s. case f (world s) of (x, w) \<Rightarrow> (Ok x, s\<lparr>world := w\<rparr>))"

lemma issue_calls [simp]:
  "calls (snd (issue r f s)) = calls s @ [r]"
  "calls (snd (issue_stream r g s)) = calls s @ [r]"
  "calls (snd (in_world h s)) = calls s"
  by (simp_all add: issue_def issue_stream_def in_world_def split: prod.splits sum.splits)

lemma issues_issue:
  "R r \<Longrightarrow> issues R (issue r f)"
  "R r \<Longrightarrow> issues R (issue_stream r g)"
  "issues R (in_world h)"
  by (simp_all add: within_def extends_def)

lemma same_issue:
  assumes "\<And>s w c. g (s\<lparr>world := w, calls := c\<rparr>) = g s"
  shows "within (same g) (issue r f)" "within (same g) (issue_stream r f')"
  using assms
  by (simp_all add: within_def same_def issue_def issue_stream_def split: prod.splits sum.splits)

lemma same_in_world:
  assumes "\<And>s w. g (s\<lparr>world := w\<rparr>) = g s"
  shows "within (same g) (in_world h)"
  using assms by (simp add: within_def same_def in_world_def split: prod.splits)

lemma issue_result:
  "fst (issue r f s) = (case fst (f (world s)) of Inl e \<Rightarrow> Err e | Inr a \<Rightarrow> Ok a)"
  by (simp add: issue_def split: prod.splits sum.splits)

lemma issue_cases:
  assumes "issue r f s = (x, s')"
  obtains e where "x = Err e" "s' = s\<lparr>world := snd (f (world s)), calls := calls s @ [r]\<rparr>"
    "fst (f (world s)) = Inl e"
  | a where "x = Ok a" "s' = s\<lparr>world := snd (f (world s)), calls := calls s @ [r]\<rparr>"
    "fst (f (world s)) = Inr a"
  using assms by (auto simp: issue_def split: prod.splits sum.splits)

lemma issue_eq:
  "issue r f s = (case fst (f (world s)) of Inl e \<Rightarrow> Err e | Inr a \<Rightarrow> Ok a, snd (issue r f s))"
  by (simp add: issue_def split: prod.split)

lemma map_err_issue:
  "map_err g (issue r f) s =
     (case fst (f (world s)) of Inl e \<Rightarrow> Err (g e) | Inr a \<Rightarrow> Ok a, snd (issue r f s))"
  by (simp add: issue_def map_err_def matchR_def ret_defs split: prod.split sum.split)

lemma same_modify: "(\<And>s. g (h s) = g s) \<Longrightarrow> within (same g) (modify h)"
  by (simp add: within_def same_def modify_def)

lemma issues_modify: "(\<And>s. calls (h s) = calls s) \<Longrightarrow> issues R (modify h)"
  by (simp add: within_def extends_def modify_def)

text \<open>The environment variables: \<open>std::env::var\<close> fails when unset or not valid UTF-8.\<close>

definition env_var :: "'w bollard \<Rightarrow> string \<Rightarrow> string option" where
  "env_var d name = (case getenv d name of None \<Rightarrow> None | Some v \<Rightarrow> if utf8_valid v then Some v else None)"

text \<open>The order in which the futures of a \<open>join_all\<close> run, from what the runtime and the daemon do.\<close>

definition poll_order :: "'w bollard \<Rightarrow> nat \<Rightarrow> 'w sys \<Rightarrow> nat list" where
  "poll_order d n s = join_order d n (world s)"

section \<open>Cells\<close>

text \<open>\<open>Arc::new(..)\<close> allocates the next cell; a clone of the \<open>Arc\<close> is the same address.\<close>

definition new_id_cell :: "string \<Rightarrow> ('w sys, 'e, addr) action" where
  "new_id_cell v = (\<lambda>s. (Ok (length (id_cells s)), s\<lparr>id_cells := id_cells s @ [v]\<rparr>))"

definition new_state_cell :: "container_state \<Rightarrow> ('w sys, 'e, addr) action" where
  "new_state_cell v = (\<lambda>s. (Ok (length (state_cells s)), s\<lparr>state_cells := state_cells s @ [v]\<rparr>))"

text \<open>
  Reads and writes go through addresses that were allocated; an address without a cell does not
  arise from the operations, and is a panic.
\<close>

definition read_cell :: "('s \<Rightarrow> 'v list) \<Rightarrow> addr \<Rightarrow> ('s, 'e, 'v) action" where
  "read_cell f a = reads f (\<lambda>vs. if a < length vs then returnR (vs ! a) else panicR ''dangling cell'')"

lemma read_cell_eq [simp]: "a < length (f s) \<Longrightarrow> read_cell f a s = (Ok (f s ! a), s)"
  by (simp add: read_cell_def action_defs)

lemma within_read_cell: "(\<And>s. rel s s) \<Longrightarrow> within rel (read_cell f a)"
  by (simp add: within_def read_cell_def action_defs)

lemma issues_cells: "issues R (new_id_cell v)" "issues R (new_state_cell c)" "issues R (read_cell f a)"
  by (simp_all add: within_def extends_def new_id_cell_def new_state_cell_def read_cell_def action_defs)

lemma same_new_state_cell: "(\<And>s c. g (s\<lparr>state_cells := c\<rparr>) = g s) \<Longrightarrow> within (same g) (new_state_cell v)"
  by (simp add: within_def same_def new_state_cell_def)

lemma same_new_id_cell: "(\<And>s c. g (s\<lparr>id_cells := c\<rparr>) = g s) \<Longrightarrow> within (same g) (new_id_cell v)"
  by (simp add: within_def same_def new_id_cell_def)

text \<open>
  The rule bundles for "only requests of kind \<open>R\<close>" and "this component is unchanged". The premises
  on the state's component are discharged by the simplifier.
\<close>

lemmas issues_rules = trace.rules issues_issue issues_cells issues_modify

lemma same_read_cell: "within (same g) (read_cell f a)"
  by (rule within_read_cell) (simp add: same_def)

lemmas same_rules = frame.rules same_issue same_in_world same_new_state_cell same_new_id_cell
  same_modify same_read_cell

end
