(* ===== verification/Images.thy ===== *)
theory Images
  imports Client
begin

text \<open>
  \<open>src/image.rs\<close> and \<open>src/docker/image.rs\<close>: what an image is, when it is pulled and with which
  credentials, and how its id is resolved.
\<close>

section \<open>src/image.rs\<close>

definition Image_with_repository :: "string \<Rightarrow> ('w sys, 'e, image) action" where
  "Image_with_repository repo = bindR (new_id_cell []) (\<lambda>a. returnR
     \<lparr>img_repository = repo, img_tag = ''latest'', img_source = None,
      img_pull_policy = IfNotPresent, img_id = a\<rparr>)"

definition RegistryCredentials_new :: "string \<Rightarrow> string \<Rightarrow> string \<Rightarrow> registry_credentials" where
  "RegistryCredentials_new address username password =
     \<lparr>rc_address = address, rc_username = username, rc_password = password\<rparr>"

definition image_tag :: "image \<Rightarrow> string \<Rightarrow> image" where
  "image_tag i t = i\<lparr>img_tag := t\<rparr>"

definition image_source :: "image \<Rightarrow> source \<Rightarrow> image" where
  "image_source i src = i\<lparr>img_source := Some src\<rparr>"

definition image_pull_policy :: "image \<Rightarrow> pull_policy \<Rightarrow> image" where
  "image_pull_policy i p = i\<lparr>img_pull_policy := p\<rparr>"

definition retrieved_id :: "image \<Rightarrow> ('w sys, 'e, string) action" where
  "retrieved_id i = read_cell id_cells (img_id i)"

definition set_id :: "image \<Rightarrow> string \<Rightarrow> ('w sys, 'e, unit) action" where
  "set_id i v = modify (\<lambda>s. s\<lparr>id_cells := (id_cells s)[img_id i := v]\<rparr>)"

fun is_valid_pull_policy :: "bool \<Rightarrow> pull_policy \<Rightarrow> string + bool" where
  "is_valid_pull_policy exists Never =
     (if exists then Inr False
      else Inl ''image does not exist locally and pull policy is set to never'')"
| "is_valid_pull_policy exists Always = Inr True"
| "is_valid_pull_policy exists IfNotPresent = (if exists then Inr False else Inr True)"

definition pull_error :: "image \<Rightarrow> string \<Rightarrow> docker_test_error" where
  "pull_error i e = Pull (img_repository i) (img_tag i) e"

fun should_pull :: "image \<Rightarrow> bool \<Rightarrow> source \<Rightarrow> docker_test_error + bool" where
  "should_pull i exists (RegistryWithCredentials _) =
     map_sum (pull_error i) id (is_valid_pull_policy exists (img_pull_policy i))"
| "should_pull i exists (RegistryWithDockerLogin _) =
     map_sum (pull_error i) id (is_valid_pull_policy exists (img_pull_policy i))"
| "should_pull i exists DockerHub =
     map_sum (pull_error i) id (is_valid_pull_policy exists (img_pull_policy i))"
| "should_pull i exists Local =
     (if exists then Inr False
      else Inl (pull_error i ''image does not exist locally and image source is set to local''))"

text \<open>
  Credentials of \<open>docker login\<close>: user name, password and server address. The error texts are the
  source's; the second one keeps its unformatted braces.
\<close>

type_synonym credentials = "string \<times> string \<times> string"

definition no_credentials :: string where
  "no_credentials = ''credentials for docker registry `{}` not available''"

definition resolve_docker_login_auth :: "'w bollard \<Rightarrow> string \<Rightarrow> (string, credentials) result" where
  "resolve_docker_login_auth d address =
     (case env_var d ''HOME'' of
        None \<Rightarrow> Err ''unable to resolve basepath to read credentials from `docker login`: reading env `HOME`''
      | Some basepath \<Rightarrow>
     (case read_file d (basepath @ ''/.docker/config.json'') of
        None \<Rightarrow> Err no_credentials
      | Some contents \<Rightarrow>
     (case login_entry d contents address of
        Err _ \<Rightarrow> Err no_credentials
      | Panic p \<Rightarrow> Panic p
      | Ok None \<Rightarrow> Err ''expecting 'auth' field to be present from `docker login`''
      | Ok (Some auth_encoded) \<Rightarrow>
     (case base64_decode d auth_encoded of
        None \<Rightarrow> Err no_credentials
      | Some auth_decoded \<Rightarrow>
     (case split_once (CHR '':'') (utf8_lossy auth_decoded) of
        None \<Rightarrow> Err no_credentials
      | Some (username, password) \<Rightarrow> Ok (username, password, address))))))"

fun resolve_auth ::
  "'w bollard \<Rightarrow> image \<Rightarrow> source \<Rightarrow> (docker_test_error, credentials option) result" where
  "resolve_auth d i (RegistryWithDockerLogin address) =
     (case resolve_docker_login_auth d address of
        Ok credentials \<Rightarrow> Ok (Some credentials)
      | Err e \<Rightarrow> Err (pull_error i e)
      | Panic p \<Rightarrow> Panic p)"
| "resolve_auth d i (RegistryWithCredentials r) =
     Ok (Some (rc_username r, rc_password r, rc_address r))"
| "resolve_auth d i Local = Ok None"
| "resolve_auth d i DockerHub = Ok None"

section \<open>src/docker/image.rs\<close>

definition image_reference :: "image \<Rightarrow> string" where
  "image_reference i = img_repository i @ '':'' @ img_tag i"

definition does_image_exist :: "'w bollard \<Rightarrow> image \<Rightarrow> ('w sys, docker_test_error, bool) action" where
  "does_image_exist d i =
     matchR (issue (InspectImage (image_reference i)) (b_inspect_image d (image_reference i)))
       (\<lambda>_. returnR True)
       (\<lambda>e. case e of
          DockerResponseServerError status_code _ \<Rightarrow>
            if status_code = 404 then returnR False else failR (Daemon (b_display d e))
        | OtherError _ \<Rightarrow> failR (Daemon (b_display d e)))"

text \<open>The progress updates of a pull are only logged; a transport error ends it.\<close>

fun pull_stream :: "'w bollard \<Rightarrow> image \<Rightarrow> (b_error + string option) list \<Rightarrow> docker_test_error + unit" where
  "pull_stream d i [] = Inr ()"
| "pull_stream d i (Inr update # rest) = pull_stream d i rest"
| "pull_stream d i (Inl e # rest) = Inl (pull_error i
     (case e of
        DockerResponseServerError status_code _ \<Rightarrow>
          if status_code = 404 then ''unknown registry or image'' else b_display d e
      | OtherError _ \<Rightarrow> b_display d e))"

definition do_pull ::
  "'w bollard \<Rightarrow> image \<Rightarrow> credentials option \<Rightarrow> ('w sys, docker_test_error, unit) action" where
  "do_pull d i auth =
     bindR (issue_stream (CreateImage (img_repository i) (img_tag i) auth)
              (b_create_image d (img_repository i) (img_tag i) auth))
       (\<lambda>updates. liftE (pull_stream d i updates))"

definition get_image_id :: "'w bollard \<Rightarrow> image \<Rightarrow> ('w sys, docker_test_error, string) action" where
  "get_image_id d i =
     matchR (issue (InspectImage (image_reference i)) (b_inspect_image d (image_reference i)))
       (\<lambda>details. case details of
          Some iid \<Rightarrow> returnR iid
        | None \<Rightarrow> panicR ''image did not have an id'')
       (\<lambda>e. failR (pull_error i (b_display d e)))"

definition pull_image :: "'w bollard \<Rightarrow> image \<Rightarrow> source \<Rightarrow> ('w sys, docker_test_error, unit) action" where
  "pull_image d i default_source =
     (let pull_source = (case img_source i of None \<Rightarrow> default_source | Some r \<Rightarrow> r) in
      bindR (does_image_exist d i) (\<lambda>exists.
      bindR (liftE (should_pull i exists pull_source)) (\<lambda>pull.
      bindR (if pull
             then bindR (liftR (resolve_auth d i pull_source)) (do_pull d i)
             else returnR ()) (\<lambda>_.
      bindR (get_image_id d i) (\<lambda>image_id.
      set_id i image_id)))))"

section \<open>Facts\<close>

definition image_request :: "request \<Rightarrow> bool" where
  "image_request r \<longleftrightarrow> (case r of InspectImage _ \<Rightarrow> True | CreateImage _ _ _ \<Rightarrow> True | _ \<Rightarrow> False)"

lemma image_request_simps [simp]:
  "image_request (InspectImage a)" "image_request (CreateImage a b c)"
  by (simp_all add: image_request_def)

lemma issues_does_image_exist: "R (InspectImage (image_reference i)) \<Longrightarrow> issues R (does_image_exist d i)"
  unfolding does_image_exist_def
  by (intro issues_rules) (auto intro!: issues_rules split: b_error.split)

lemma issues_get_image_id: "R (InspectImage (image_reference i)) \<Longrightarrow> issues R (get_image_id d i)"
  unfolding get_image_id_def by (intro issues_rules) auto

lemma issues_do_pull:
  "R (CreateImage (img_repository i) (img_tag i) auth) \<Longrightarrow> issues R (do_pull d i auth)"
  unfolding do_pull_def by (intro issues_rules) auto

lemma issues_set_id: "issues R (set_id i v)"
  unfolding set_id_def by (intro issues_rules) simp

lemma issues_pull_image:
  assumes "R (InspectImage (image_reference i))"
    and "\<And>auth. R (CreateImage (img_repository i) (img_tag i) auth)"
  shows "issues R (pull_image d i src)"
  unfolding pull_image_def Let_def
  by (intro issues_rules issues_does_image_exist issues_get_image_id issues_do_pull issues_set_id
      assms)

lemma same_set_id: "(\<And>s c. g (s\<lparr>id_cells := c\<rparr>) = g s) \<Longrightarrow> within (same g) (set_id i v)"
  unfolding set_id_def by (rule same_modify)

lemma does_image_exist_Ok:
  assumes "does_image_exist d i s = (Ok b, s')"
  shows "calls s' = calls s @ [InspectImage (image_reference i)] \<and> id_cells s' = id_cells s"
  using assms unfolding does_image_exist_def
  by (elim matchR_cases issue_cases) (auto simp: ret_defs split: b_error.splits if_splits)

lemma get_image_id_Ok:
  assumes "get_image_id d i s = (Ok v, s')"
  shows "calls s' = calls s @ [InspectImage (image_reference i)] \<and> id_cells s' = id_cells s
    \<and> fst (b_inspect_image d (image_reference i) (world s)) = Inr (Some v)"
  using assms unfolding get_image_id_def
  by (elim matchR_cases issue_cases) (auto simp: ret_defs split: option.splits)

lemma do_pull_Ok:
  assumes "do_pull d i auth s = (Ok (), s')"
  shows "calls s' = calls s @ [CreateImage (img_repository i) (img_tag i) auth]
    \<and> id_cells s' = id_cells s"
  using assms unfolding do_pull_def
  by (elim bindR_Ok) (auto simp: issue_stream_def liftE_def ret_defs split: prod.splits sum.splits)

text \<open>
  A successful \<open>pull_image\<close>: the requests it made, and the id it left in the shared cell.
\<close>

lemma pull_image_Ok:
  assumes "pull_image d i default_source s = (Ok (), s')"
  shows "\<exists>exists pull auths v.
      should_pull i exists (case img_source i of None \<Rightarrow> default_source | Some r \<Rightarrow> r) = Inr pull
    \<and> length auths = (if pull then 1 else 0)
    \<and> calls s' = calls s @ [InspectImage (image_reference i)]
        @ map (CreateImage (img_repository i) (img_tag i)) auths @ [InspectImage (image_reference i)]
    \<and> id_cells s' = (id_cells s)[img_id i := v]"
proof -
  let ?src = "case img_source i of None \<Rightarrow> default_source | Some r \<Rightarrow> r"
  obtain "exists" s1 pull s2 u s3 v s4
    where 1: "does_image_exist d i s = (Ok exists, s1)"
      and 2: "liftE (should_pull i exists ?src) s1 = (Ok pull, s2)"
      and 3: "(if pull then bindR (liftR (resolve_auth d i ?src)) (do_pull d i) else returnR ()) s2
                = (Ok u, s3)"
      and 4: "get_image_id d i s3 = (Ok v, s4)"
      and 5: "set_id i v s4 = (Ok () :: (docker_test_error, unit) result, s')"
    using assms unfolding pull_image_def Let_def by (elim bindR_Ok) (rule that)
  have s2: "should_pull i exists ?src = Inr pull" "s2 = s1"
    using 2 by (auto simp: liftE_def ret_defs split: sum.splits)
  have "\<exists>auths. length auths = (if pull then 1 else 0) \<and> id_cells s3 = id_cells s2
    \<and> calls s3 = calls s2 @ map (CreateImage (img_repository i) (img_tag i)) auths"
  proof (cases pull)
    case True
    with 3 obtain auth sa where a: "liftR (resolve_auth d i ?src) s2 = (Ok auth, sa)"
      and b: "do_pull d i auth sa = (Ok u, s3)"
      by (auto elim: bindR_Ok)
    have "sa = s2" using a by (simp add: liftR_def)
    with do_pull_Ok [of d i auth sa s3] b True show ?thesis
      by (intro exI [of _ "[auth]"]) simp
  next
    case False
    with 3 show ?thesis by (simp add: action_defs)
  qed
  then obtain auths where "length auths = (if pull then 1 else 0)" "id_cells s3 = id_cells s2"
    "calls s3 = calls s2 @ map (CreateImage (img_repository i) (img_tag i)) auths"
    by blast
  with does_image_exist_Ok [OF 1] get_image_id_Ok [OF 4] s2 5 show ?thesis
    by (intro exI [of _ "exists"] exI [of _ pull] exI [of _ auths] exI [of _ v])
       (auto simp: set_id_def modify_def)
qed

end
