(* ===== verification/Compositions.thy ===== *)
theory Compositions
  imports Images
begin

text \<open>
  \<open>src/composition.rs\<close>: the builder of a container description, its names, and
  \<open>src/specification.rs\<close>, the four public kinds of specification that wrap one, with the
  configuration of a test (\<open>src/dockertest.rs\<close>) that collects them.
\<close>

section \<open>Construction\<close>

definition default_log_options :: log_options where
  "default_log_options = \<lparr>lo_action = Forward, lo_policy = OnError, lo_source = StdErr\<rparr>"

definition with_image :: "image \<Rightarrow> composition" where
  "with_image i =
     \<lparr>user_provided_container_name = None,
      network_aliases = None,
      container_name = replace_char (CHR ''/'') (CHR ''-'') (img_repository i),
      comp_wait = NoWait,
      comp_env = [],
      comp_cmd = [],
      comp_start_policy = Relaxed,
      comp_image = i,
      comp_named_volumes = [],
      final_named_volume_names = [],
      bind_mounts = [],
      inject_container_name_env = [],
      comp_port = [],
      comp_publish_all_ports = False,
      management = None,
      comp_log_options = Some default_log_options,
      comp_tmpfs = [],
      comp_privileged = False\<rparr>"

definition with_repository :: "string \<Rightarrow> ('w sys, 'e, composition) action" where
  "with_repository repo = bindR (Image_with_repository repo) (\<lambda>i. returnR
     \<lparr>user_provided_container_name = None,
      network_aliases = None,
      container_name = replace_char (CHR ''/'') (CHR ''-'') repo,
      comp_wait = NoWait,
      comp_env = [],
      comp_cmd = [],
      comp_start_policy = Relaxed,
      comp_image = i,
      comp_named_volumes = [],
      final_named_volume_names = [],
      bind_mounts = [],
      inject_container_name_env = [],
      comp_port = [],
      comp_publish_all_ports = False,
      management = None,
      comp_log_options = Some default_log_options,
      comp_tmpfs = [],
      comp_privileged = False\<rparr>)"

section \<open>Builder methods\<close>

definition with_tmpfs :: "string list \<Rightarrow> composition \<Rightarrow> composition" where
  "with_tmpfs paths c = c\<lparr>comp_tmpfs := paths\<rparr>"

definition with_start_policy :: "start_policy \<Rightarrow> composition \<Rightarrow> composition" where
  "with_start_policy p c = c\<lparr>comp_start_policy := p\<rparr>"

definition with_env :: "(string \<times> string) list \<Rightarrow> composition \<Rightarrow> composition" where
  "with_env e c = c\<lparr>comp_env := e\<rparr>"

definition with_cmd :: "string list \<Rightarrow> composition \<Rightarrow> composition" where
  "with_cmd cs c = c\<lparr>comp_cmd := cs\<rparr>"

definition port_map :: "32 word \<Rightarrow> 32 word \<Rightarrow> composition \<Rightarrow> composition" where
  "port_map exported host c =
     c\<lparr>comp_port := comp_port c @ [(show_u32 exported @ ''/tcp'', show_u32 host)]\<rparr>"

definition publish_all_ports :: "bool \<Rightarrow> composition \<Rightarrow> composition" where
  "publish_all_ports publish c = c\<lparr>comp_publish_all_ports := publish\<rparr>"

definition with_container_name :: "string \<Rightarrow> composition \<Rightarrow> composition" where
  "with_container_name n c = c\<lparr>user_provided_container_name := Some n\<rparr>"

definition with_alias :: "string list \<Rightarrow> composition \<Rightarrow> composition" where
  "with_alias aliases c = c\<lparr>network_aliases := Some aliases\<rparr>"

definition composition_alias :: "string \<Rightarrow> composition \<Rightarrow> composition" where
  "composition_alias a c =
     (case network_aliases c of
        Some aliases \<Rightarrow> c\<lparr>network_aliases := Some (aliases @ [a])\<rparr>
      | None \<Rightarrow> c\<lparr>network_aliases := Some [a]\<rparr>)"

definition with_wait_for :: "wait_for \<Rightarrow> composition \<Rightarrow> composition" where
  "with_wait_for w c = c\<lparr>comp_wait := w\<rparr>"

definition with_log_options :: "log_options option \<Rightarrow> composition \<Rightarrow> composition" where
  "with_log_options l c = c\<lparr>comp_log_options := l\<rparr>"

definition composition_env :: "string \<Rightarrow> string \<Rightarrow> composition \<Rightarrow> composition" where
  "composition_env n v c = c\<lparr>comp_env := AList.update n v (comp_env c)\<rparr>"

definition composition_cmd :: "string \<Rightarrow> composition \<Rightarrow> composition" where
  "composition_cmd x c = c\<lparr>comp_cmd := comp_cmd c @ [x]\<rparr>"

definition composition_tmpfs :: "string \<Rightarrow> composition \<Rightarrow> composition" where
  "composition_tmpfs p c = c\<lparr>comp_tmpfs := comp_tmpfs c @ [p]\<rparr>"

definition named_volume :: "string \<Rightarrow> string \<Rightarrow> composition \<Rightarrow> composition" where
  "named_volume v path c = c\<lparr>comp_named_volumes := comp_named_volumes c @ [(v, path)]\<rparr>"

definition bind_mount :: "string \<Rightarrow> string \<Rightarrow> composition \<Rightarrow> composition" where
  "bind_mount host_path path c =
     c\<lparr>bind_mounts := bind_mounts c @ [host_path @ '':'' @ path @ '':Z'']\<rparr>"

definition inject_container_name :: "string \<Rightarrow> string \<Rightarrow> composition \<Rightarrow> composition" where
  "inject_container_name h e c =
     c\<lparr>inject_container_name_env := inject_container_name_env c @ [(h, e)]\<rparr>"

definition static_container ::
  "'w bollard \<Rightarrow> static_management_policy \<Rightarrow> composition \<Rightarrow> composition" where
  "static_container d m c =
     c\<lparr>management := Some
        (case m of
           External \<Rightarrow> m
         | Internal \<Rightarrow> m
         | Dynamic \<Rightarrow>
             (case env_var d ''DOCKERTEST_DYNAMIC'' of
                Some val \<Rightarrow>
                  if val = ''EXTERNAL'' then External
                  else if val = ''INTERNAL'' then Internal
                  else if val = ''DYNAMIC'' then Dynamic
                  else Dynamic
              | None \<Rightarrow> m))\<rparr>"

definition composition_privileged :: "composition \<Rightarrow> composition" where
  "composition_privileged c = c\<lparr>comp_privileged := True\<rparr>"

section \<open>Queries and names\<close>

definition static_management_policy_of :: "composition \<Rightarrow> static_management_policy option" where
  "static_management_policy_of c = management c"

definition is_static :: "composition \<Rightarrow> bool" where
  "is_static c \<longleftrightarrow> management c \<noteq> None"

definition configure_container_name :: "string \<Rightarrow> string \<Rightarrow> composition \<Rightarrow> composition" where
  "configure_container_name namespace sfx c =
     (let n = (case user_provided_container_name c of
                 None \<Rightarrow> img_repository (comp_image c)
               | Some n \<Rightarrow> n)
      in if \<not> is_static c
         then c\<lparr>container_name :=
                  namespace @ ''-'' @ replace_char (CHR ''/'') (CHR ''_'') n @ ''-'' @ sfx\<rparr>
         else c\<lparr>container_name := n\<rparr>)"

definition handle :: "composition \<Rightarrow> string" where
  "handle c =
     (case user_provided_container_name c of
        None \<Rightarrow> img_repository (comp_image c)
      | Some n \<Rightarrow> n)"

section \<open>Specifications (src/specification.rs)\<close>

text \<open>
  The three specification structs that wrap a composition get the same methods from the macro
  \<open>impl_specify_container\<close>; \<open>ExternalSpecification\<close> holds a name only and has none of them.
\<close>

datatype container_specification =
    TestBodySpecification composition
  | TestSuiteSpecification composition
  | DynamicSpecification composition
  | ExternalSpecification string

fun specify :: "(composition \<Rightarrow> composition) \<Rightarrow> container_specification \<Rightarrow> container_specification" where
  "specify f (TestBodySpecification c) = TestBodySpecification (f c)"
| "specify f (TestSuiteSpecification c) = TestSuiteSpecification (f c)"
| "specify f (DynamicSpecification c) = DynamicSpecification (f c)"
| "specify f (ExternalSpecification n) = ExternalSpecification n"

definition set_start_policy :: "start_policy \<Rightarrow> container_specification \<Rightarrow> container_specification" where
  "set_start_policy p = specify (with_start_policy p)"

definition replace_env :: "(string \<times> string) list \<Rightarrow> container_specification \<Rightarrow> container_specification" where
  "replace_env e = specify (with_env e)"

definition modify_env :: "string \<Rightarrow> string \<Rightarrow> container_specification \<Rightarrow> container_specification" where
  "modify_env n v = specify (composition_env n v)"

definition replace_cmd :: "string list \<Rightarrow> container_specification \<Rightarrow> container_specification" where
  "replace_cmd cs = specify (with_cmd cs)"

definition specification_tmpfs :: "string \<Rightarrow> container_specification \<Rightarrow> container_specification" where
  "specification_tmpfs p = specify (composition_tmpfs p)"

definition replace_tmpfs :: "string list \<Rightarrow> container_specification \<Rightarrow> container_specification" where
  "replace_tmpfs ps = specify (with_tmpfs ps)"

definition append_cmd :: "string \<Rightarrow> container_specification \<Rightarrow> container_specification" where
  "append_cmd x = specify (composition_cmd x)"

definition set_publish_all_ports :: "bool \<Rightarrow> container_specification \<Rightarrow> container_specification" where
  "set_publish_all_ports b = specify (publish_all_ports b)"

definition modify_port_map :: "32 word \<Rightarrow> 32 word \<Rightarrow> container_specification \<Rightarrow> container_specification" where
  "modify_port_map exported host = specify (port_map exported host)"

definition specification_privileged :: "bool \<Rightarrow> container_specification \<Rightarrow> container_specification" where
  "specification_privileged b = specify (\<lambda>c. c\<lparr>comp_privileged := b\<rparr>)"

definition set_privileged :: "bool \<Rightarrow> container_specification \<Rightarrow> container_specification" where
  "set_privileged b = specify (\<lambda>c. c\<lparr>comp_privileged := b\<rparr>)"

definition set_handle :: "string \<Rightarrow> container_specification \<Rightarrow> container_specification" where
  "set_handle h = specify (with_container_name h)"

definition replace_network_alias :: "string list \<Rightarrow> container_specification \<Rightarrow> container_specification" where
  "replace_network_alias aliases = specify (with_alias aliases)"

definition append_network_alias :: "string \<Rightarrow> container_specification \<Rightarrow> container_specification" where
  "append_network_alias a = specify (composition_alias a)"

definition set_wait_for :: "wait_for \<Rightarrow> container_specification \<Rightarrow> container_specification" where
  "set_wait_for w = specify (with_wait_for w)"

definition set_log_options :: "log_options option \<Rightarrow> container_specification \<Rightarrow> container_specification" where
  "set_log_options l = specify (with_log_options l)"

definition modify_named_volume :: "string \<Rightarrow> string \<Rightarrow> container_specification \<Rightarrow> container_specification" where
  "modify_named_volume v path = specify (named_volume v path)"

definition modify_bind_mount :: "string \<Rightarrow> string \<Rightarrow> container_specification \<Rightarrow> container_specification" where
  "modify_bind_mount host_path path = specify (bind_mount host_path path)"

definition specification_inject_container_name ::
  "string \<Rightarrow> string \<Rightarrow> container_specification \<Rightarrow> container_specification" where
  "specification_inject_container_name h e = specify (inject_container_name h e)"

definition TestSuite_with_repository :: "string \<Rightarrow> ('w sys, 'e, container_specification) action" where
  "TestSuite_with_repository repo =
     bindR (with_repository repo) (\<lambda>c. returnR (TestSuiteSpecification c))"

definition TestSuite_with_image :: "image \<Rightarrow> container_specification" where
  "TestSuite_with_image i = TestSuiteSpecification (with_image i)"

definition TestBody_with_repository :: "string \<Rightarrow> ('w sys, 'e, container_specification) action" where
  "TestBody_with_repository repo =
     bindR (with_repository repo) (\<lambda>c. returnR (TestBodySpecification c))"

definition TestBody_with_image :: "image \<Rightarrow> container_specification" where
  "TestBody_with_image i = TestBodySpecification (with_image i)"

definition Dynamic_with_repository :: "string \<Rightarrow> string \<Rightarrow> ('w sys, 'e, container_specification) action" where
  "Dynamic_with_repository repo n =
     bindR (with_repository repo) (\<lambda>c. returnR (DynamicSpecification (with_container_name n c)))"

definition Dynamic_with_image :: "image \<Rightarrow> string \<Rightarrow> container_specification" where
  "Dynamic_with_image i n = DynamicSpecification (with_container_name n (with_image i))"

definition External_with_container_name :: "string \<Rightarrow> container_specification" where
  "External_with_container_name n = ExternalSpecification n"

definition External_into_composition :: "'w bollard \<Rightarrow> string \<Rightarrow> ('w sys, 'e, composition) action" where
  "External_into_composition d n =
     bindR (with_repository ''NOT REQUIRED'') (\<lambda>c.
     returnR (static_container d External (with_container_name n c)))"

definition TestSuite_into_composition :: "'w bollard \<Rightarrow> composition \<Rightarrow> composition" where
  "TestSuite_into_composition d c = static_container d Internal c"

definition TestBody_into_composition :: "composition \<Rightarrow> composition" where
  "TestBody_into_composition c = c"

definition Dynamic_into_composition :: "'w bollard \<Rightarrow> composition \<Rightarrow> composition" where
  "Dynamic_into_composition d c = static_container d Dynamic c"

definition into_composition :: "'w bollard \<Rightarrow> container_specification \<Rightarrow> ('w sys, 'e, composition) action" where
  "into_composition d spec =
     (case spec of
        TestBodySpecification c \<Rightarrow> returnR (TestBody_into_composition c)
      | TestSuiteSpecification c \<Rightarrow> returnR (TestSuite_into_composition d c)
      | DynamicSpecification c \<Rightarrow> returnR (Dynamic_into_composition d c)
      | ExternalSpecification n \<Rightarrow> External_into_composition d n)"

section \<open>Test configuration (src/dockertest.rs)\<close>

definition DockerTest_new :: docker_test where
  "DockerTest_new =
     \<lparr>dt_compositions = [], dt_namespace = ''dockertest-rs'', dt_default_source = Local,
      dt_container_id = None, dt_network = Singular\<rparr>"

definition DockerTest_source :: "docker_test \<Rightarrow> source" where
  "DockerTest_source t = dt_default_source t"

definition with_default_source :: "source \<Rightarrow> docker_test \<Rightarrow> docker_test" where
  "with_default_source src t = t\<lparr>dt_default_source := src\<rparr>"

definition with_namespace :: "string \<Rightarrow> docker_test \<Rightarrow> docker_test" where
  "with_namespace n t = t\<lparr>dt_namespace := n\<rparr>"

definition with_network :: "network \<Rightarrow> docker_test \<Rightarrow> docker_test" where
  "with_network n t = t\<lparr>dt_network := n\<rparr>"

definition provide_container ::
  "'w bollard \<Rightarrow> container_specification \<Rightarrow> docker_test \<Rightarrow> ('w sys, 'e, docker_test) action" where
  "provide_container d spec t = bindR (into_composition d spec) (\<lambda>c.
     returnR (t\<lparr>dt_compositions := dt_compositions t @ [c]\<rparr>))"

section \<open>Facts\<close>

lemma handle_configure [simp]: "handle (configure_container_name ns sfx c) = handle c"
  by (simp add: handle_def configure_container_name_def Let_def split: option.split)

lemma configure_frame [simp]:
  "management (configure_container_name ns sfx c) = management c"
  "inject_container_name_env (configure_container_name ns sfx c) = inject_container_name_env c"
  "comp_env (configure_container_name ns sfx c) = comp_env c"
  "comp_image (configure_container_name ns sfx c) = comp_image c"
  "comp_start_policy (configure_container_name ns sfx c) = comp_start_policy c"
  by (simp_all add: configure_container_name_def Let_def)

lemma configure_static: "is_static c \<Longrightarrow> container_name (configure_container_name ns sfx c) = handle c"
  by (simp add: configure_container_name_def handle_def)

lemma configure_nonstatic:
  "\<not> is_static c \<Longrightarrow> container_name (configure_container_name ns sfx c) =
     ns @ ''-'' @ replace_char (CHR ''/'') (CHR ''_'') (handle c) @ ''-'' @ sfx"
  by (simp add: configure_container_name_def handle_def)

end
