(* ===== verification/Containers.thy ===== *)
theory Containers
  imports Compositions
begin

text \<open>
  \<open>src/container/pending.rs\<close>, \<open>src/container/operational.rs\<close> and \<open>src/container/cleanup.rs\<close>:
  the three forms a container takes, the conversions between them, and the host port mappings read
  from the daemon's answer.
\<close>

section \<open>Conversions\<close>

definition expected_state :: "'w bollard \<Rightarrow> wait_for \<Rightarrow> container_state" where
  "expected_state d w =
     (case w of
        ExitedWait _ _ \<Rightarrow> Exited
      | CustomWait i \<Rightarrow> custom_expected_state d i
      | _ \<Rightarrow> Running)"

definition PendingContainer_new ::
  "'w bollard \<Rightarrow> string \<Rightarrow> string \<Rightarrow> string \<Rightarrow> start_policy \<Rightarrow> wait_for
   \<Rightarrow> static_management_policy option \<Rightarrow> log_options option \<Rightarrow> pending_container" where
  "PendingContainer_new d n cid h policy w m l =
     \<lparr>pend_name = n, pend_id = cid, pend_handle = h, pend_start_policy = policy,
      pend_wait = Some w, pend_is_static = (m \<noteq> None), pend_static_management_policy = m,
      pend_log_options = l, pend_expected_state = expected_state d w\<rparr>"

definition operational_from :: "pending_container \<Rightarrow> ('w sys, 'e, operational_container) action" where
  "operational_from p = bindR (new_state_cell (pend_expected_state p)) (\<lambda>a. returnR
     \<lparr>oper_handle = pend_handle p, oper_id = pend_id p, oper_name = pend_name p,
      oper_ip = UNSPECIFIED, oper_ports = [], oper_is_static = pend_is_static p,
      oper_log_options = pend_log_options p, oper_assumed_state = a\<rparr>)"

definition cleanup_from_pending :: "pending_container \<Rightarrow> cleanup_container" where
  "cleanup_from_pending p =
     \<lparr>clean_id = pend_id p, clean_is_static = pend_is_static p, clean_name = pend_name p,
      clean_log_options = pend_log_options p\<rparr>"

definition cleanup_from_operational :: "operational_container \<Rightarrow> cleanup_container" where
  "cleanup_from_operational r =
     \<lparr>clean_id = oper_id r, clean_is_static = oper_is_static r, clean_name = oper_name r,
      clean_log_options = oper_log_options r\<rparr>"

section \<open>Host port mappings\<close>

datatype host_port_mapping_error = HostPortKey string | NoMapping | Conversion string

fun display_host_port_mapping_error :: "host_port_mapping_error \<Rightarrow> string" where
  "display_host_port_mapping_error (HostPortKey k) =
     ''failed to extract host port from docker details, malformed ip/protocol key: '' @ k"
| "display_host_port_mapping_error NoMapping =
     ''port mapping did not contain a host port or host ip''"
| "display_host_port_mapping_error (Conversion e) =
     ''failed to convert host ip/port to appropriate types: '' @ e"

definition from_port_binding ::
  "port_binding \<Rightarrow> host_port_mapping_error + (ipv4 \<times> 32 word) option" where
  "from_port_binding ports =
     (case (pb_host_ip ports, pb_host_port ports) of
        (Some ip, Some port) \<Rightarrow>
          (case ip_addr_from_str ip of
             None \<Rightarrow> Inl (Conversion ''invalid IP address syntax'')
           | Some (V4 v4) \<Rightarrow>
               (case u32_from_str port of
                  Inl e \<Rightarrow> Inl (Conversion (display_parse_int_error e))
                | Inr parsed_port \<Rightarrow> Inr (Some (v4, parsed_port)))
           | Some V6 \<Rightarrow> Inr None)
      | _ \<Rightarrow> Inl NoMapping)"

text \<open>\<open>map.entry(host_port).or_insert(..)\<close> for every binding of one key.\<close>

fun add_bindings ::
  "32 word \<Rightarrow> port_binding list \<Rightarrow> host_port_mappings
   \<Rightarrow> host_port_mapping_error + host_port_mappings" where
  "add_bindings host_port [] m = Inr m"
| "add_bindings host_port (b # bs) m =
     (case from_port_binding b of
        Inl e \<Rightarrow> Inl e
      | Inr None \<Rightarrow> add_bindings host_port bs m
      | Inr (Some (ip, port)) \<Rightarrow> add_bindings host_port bs
          (if map_of m host_port = None then AList.update host_port (ip, port) m else m))"

fun add_port_map ::
  "(string \<times> port_binding list option) list \<Rightarrow> host_port_mappings
   \<Rightarrow> host_port_mapping_error + host_port_mappings" where
  "add_port_map [] m = Inr m"
| "add_port_map ((key, None) # rest) m = add_port_map rest m"
| "add_port_map ((key, Some bindings) # rest) m =
     (let split = split_char (CHR ''/'') key in
      if length split < 2 then Inl (HostPortKey key)
      else (case u32_from_str (split ! 0) of
              Inl e \<Rightarrow> Inl (Conversion (display_parse_int_error e))
            | Inr host_port \<Rightarrow>
                (case add_bindings host_port bindings m of
                   Inl e \<Rightarrow> Inl e
                 | Inr m' \<Rightarrow> add_port_map rest m')))"

definition try_from_port_map ::
  "(string \<times> port_binding list option) list \<Rightarrow> host_port_mapping_error + host_port_mappings" where
  "try_from_port_map p = add_port_map p []"

definition host_port :: "operational_container \<Rightarrow> 32 word \<Rightarrow> (ipv4 \<times> 32 word) option" where
  "host_port c exposed_port = map_of (oper_ports c) exposed_port"

definition host_port_unchecked ::
  "operational_container \<Rightarrow> 32 word \<Rightarrow> ('s, 'e, ipv4 \<times> 32 word) action" where
  "host_port_unchecked c exposed_port =
     (case map_of (oper_ports c) exposed_port of
        Some b \<Rightarrow> returnR b
      | None \<Rightarrow> panicR ''called `Option::unwrap()` on a `None` value'')"

section \<open>Facts\<close>

lemma operational_from_eq:
  "operational_from p s =
     (Ok \<lparr>oper_handle = pend_handle p, oper_id = pend_id p, oper_name = pend_name p,
          oper_ip = UNSPECIFIED, oper_ports = [], oper_is_static = pend_is_static p,
          oper_log_options = pend_log_options p, oper_assumed_state = length (state_cells s)\<rparr>,
      s\<lparr>state_cells := state_cells s @ [pend_expected_state p]\<rparr>)"
  by (simp add: operational_from_def new_state_cell_def action_defs)

text \<open>
  What a mapping may hold: an entry for port \<open>k\<close> comes from an IPv4 binding of a key whose part
  before the first slash is the number \<open>k\<close>.
\<close>

definition binding_source ::
  "(string \<times> port_binding list option) list \<Rightarrow> 32 word \<Rightarrow> ipv4 \<times> 32 word \<Rightarrow> bool" where
  "binding_source p k v \<longleftrightarrow>
     (\<exists>key bs b. (key, Some bs) \<in> set p \<and> b \<in> set bs
        \<and> u32_from_str (split_char (CHR ''/'') key ! 0) = Inr k
        \<and> from_port_binding b = Inr (Some v))"

lemma add_bindings_sound:
  assumes "add_bindings k bs m = Inr m'" and "map_of m' j = Some v"
  shows "map_of m j = Some v
    \<or> j = k \<and> (\<exists>b \<in> set bs. from_port_binding b = Inr (Some v))"
  using assms
proof (induction bs arbitrary: m)
  case Nil
  then show ?case by simp
next
  case (Cons b bs)
  then show ?case
    by (auto split: sum.splits option.splits if_splits dest!: Cons.IH)
qed

lemma add_port_map_sound:
  assumes "add_port_map p m = Inr m'" and "map_of m' k = Some v"
  shows "map_of m k = Some v \<or> binding_source p k v"
  using assms
proof (induction p m rule: add_port_map.induct)
  case (1 m)
  then show ?case by simp
next
  case (2 key rest m)
  then show ?case by (auto simp: binding_source_def)
next
  case (3 key bindings rest m)
  then obtain h m1 where h: "u32_from_str (split_char (CHR ''/'') key ! 0) = Inr h"
    and m1: "add_bindings h bindings m = Inr m1" and rest: "add_port_map rest m1 = Inr m'"
    and long: "\<not> length (split_char (CHR ''/'') key) < 2"
    by (auto simp: Let_def split: if_splits sum.splits)
  from "3.IH" [OF refl long h m1 rest] "3.prems"(2)
  have "map_of m1 k = Some v \<or> binding_source rest k v" by simp
  then show ?case
  proof
    assume "map_of m1 k = Some v"
    with add_bindings_sound [OF m1] h show ?thesis
      by (fastforce simp: binding_source_def)
  next
    assume "binding_source rest k v"
    then show ?thesis by (fastforce simp: binding_source_def)
  qed
qed

text \<open>A later entry for a port that already has one changes nothing.\<close>

lemma add_bindings_keeps:
  "add_bindings h bs m = Inr m' \<Longrightarrow> map_of m k = Some v \<Longrightarrow> map_of m' k = Some v"
  by (induction bs arbitrary: m) (simp, fastforce split: sum.splits option.splits if_splits)

lemma add_port_map_keeps:
  "add_port_map p m = Inr m' \<Longrightarrow> map_of m k = Some v \<Longrightarrow> map_of m' k = Some v"
  by (induction p m rule: add_port_map.induct)
     (auto simp: Let_def dest: add_bindings_keeps split: sum.splits if_splits)

text \<open>The key that \<open>port_map\<close> writes reads back as the exposed port.\<close>

lemma port_key_roundtrip: "u32_from_str (split_char (CHR ''/'') (show_u32 p @ ''/tcp'') ! 0) = Inr p"
  using split_char_append [OF show_u32_no_slash, of p "''tcp''"] by (simp add: u32_from_str_show)

lemma port_key_length: "length (split_char (CHR ''/'') (show_u32 p @ ''/tcp'')) = 2"
  using split_char_append [OF show_u32_no_slash, of p "''tcp''"] by simp

end
