(* ===== verification/Docker_Containers.thy ===== *)
theory Docker_Containers
  imports Containers
begin

text \<open>
  \<open>src/docker/container.rs\<close>, except the start of a container (theory \<open>Waiting\<close>): the operations on
  containers that the library asks of the daemon.
\<close>

section \<open>Operations\<close>

definition docker_unpause :: "'w bollard \<Rightarrow> string \<Rightarrow> ('w sys, docker_test_error, unit) action" where
  "docker_unpause d n = map_err (\<lambda>e. Daemon (''failed to unpause container: '' @ b_debug d e))
     (issue (UnpauseContainer n) (b_unpause_container d n))"

definition docker_kill :: "'w bollard \<Rightarrow> string \<Rightarrow> ('w sys, docker_test_error, unit) action" where
  "docker_kill d n = map_err (\<lambda>e. Daemon (''failed to kill container: '' @ b_debug d e))
     (issue (KillContainer n ''SIGKILL'') (b_kill_container d n ''SIGKILL''))"

definition docker_pause :: "'w bollard \<Rightarrow> string \<Rightarrow> ('w sys, docker_test_error, unit) action" where
  "docker_pause d n = map_err (\<lambda>e. Daemon (''failed to pause container: '' @ b_debug d e))
     (issue (PauseContainer n) (b_pause_container d n))"

definition get_container_state ::
  "'w bollard \<Rightarrow> string \<Rightarrow> ('w sys, docker_test_error, container_state) action" where
  "get_container_state d n =
     bindR (map_err (\<lambda>e. Daemon (''failed to check container state: '' @ b_debug d e))
              (issue (InspectContainer n) (b_inspect_container d n))) (\<lambda>details.
     case ir_state details of
       None \<Rightarrow> failR (Daemon (''container state was '' @ [CHR 0x27] @ ''None'' @ [CHR 0x27]))
     | Some None \<Rightarrow> failR (Daemon (''container status was '' @ [CHR 0x27] @ ''None'' @ [CHR 0x27]))
     | Some (Some st) \<Rightarrow> returnR (container_state_from st))"

record container_log_source =
  log_stderr :: bool
  log_stdout :: bool
  log_follow :: bool

fun container_log_source_from :: "message_source \<Rightarrow> container_log_source" where
  "container_log_source_from Stdout = \<lparr>log_stderr = False, log_stdout = True, log_follow = False\<rparr>"
| "container_log_source_from Stderr = \<lparr>log_stderr = True, log_stdout = False, log_follow = False\<rparr>"

record log_entry =
  le_message :: string
  le_source :: message_source

text \<open>The \<open>filter_map\<close> closure of \<open>container_logs\<close>, and the stream it makes.\<close>

fun log_chunk ::
  "'w bollard \<Rightarrow> container_log_source \<Rightarrow> b_error + log_output
   \<Rightarrow> (docker_test_error + log_entry) option" where
  "log_chunk d src (Inr (LogStdErr m)) =
     (if log_stderr src then Some (Inr \<lparr>le_message = m, le_source = Stderr\<rparr>) else None)"
| "log_chunk d src (Inr (LogStdOut m)) =
     (if log_stdout src then Some (Inr \<lparr>le_message = m, le_source = Stdout\<rparr>) else None)"
| "log_chunk d src (Inr (LogStdIn m)) = None"
| "log_chunk d src (Inr (LogConsole m)) = None"
| "log_chunk d src (Inl e) = Some (Inl (ContainerLogStream (b_display d e)))"

record entry_stream =
  es_items :: "(nat \<times> (docker_test_error + log_entry)) list"
  es_closed :: "nat option"

definition container_logs ::
  "'w bollard \<Rightarrow> string \<Rightarrow> container_log_source \<Rightarrow> ('w sys, 'e, entry_stream) action" where
  "container_logs d cid src =
     bindR (issue_stream (ContainerLogs cid True (log_stderr src) (log_stdout src))
              (b_logs d cid True (log_stderr src) (log_stdout src))) (\<lambda>stream.
     returnR \<lparr>es_items = List.map_filter
                 (\<lambda>(t, chunk). map_option (Pair t) (log_chunk d src chunk)) (ls_items stream),
              es_closed = ls_closed stream\<rparr>)"

record container_info =
  info_ip :: ipv4
  info_ports :: host_port_mappings

definition unwrap_none :: "('s, 'e, 'a) action" where
  "unwrap_none = panicR ''called `Option::unwrap()` on a `None` value''"

definition get_container_ip_and_ports ::
  "'w bollard \<Rightarrow> string \<Rightarrow> string \<Rightarrow> ('w sys, docker_test_error, container_info) action" where
  "get_container_ip_and_ports d cid network_name =
     bindR (map_err (\<lambda>e. Daemon (''failed to inspect container: '' @ b_display d e))
              (issue (InspectContainer cid) (b_inspect_container d cid))) (\<lambda>details.
     case ir_network_settings details of
       None \<Rightarrow> unwrap_none
     | Some settings \<Rightarrow>
         (case ns_networks settings of
            None \<Rightarrow> unwrap_none
          | Some networks \<Rightarrow>
              bindR (case map_of networks network_name of
                       Some None \<Rightarrow> unwrap_none
                     | Some (Some ip_address) \<Rightarrow>
                         returnR (case ipv4_from_str ip_address of Some ip \<Rightarrow> ip | None \<Rightarrow> UNSPECIFIED)
                     | None \<Rightarrow> returnR UNSPECIFIED) (\<lambda>container_ip.
              bindR (case ns_ports settings of
                       Some ports \<Rightarrow>
                         liftE (map_sum (\<lambda>e. HostPort (display_host_port_mapping_error e)) id
                                  (try_from_port_map ports))
                     | None \<Rightarrow> returnR []) (\<lambda>host_ports.
              returnR \<lparr>info_ip = container_ip, info_ports = host_ports\<rparr>))))"

text \<open>
  Of these the results are dropped: those of \<open>join_all\<close> all together, the errors of single requests after
  they have been logged.
\<close>

definition ignore_err :: "('s, 'e, 'a) action \<Rightarrow> ('s, docker_test_error, unit) action" where
  "ignore_err m = matchR m (\<lambda>_. returnR ()) (\<lambda>_. returnR ())"

definition stop_containers :: "'w bollard \<Rightarrow> cleanup_container list \<Rightarrow> ('w sys, docker_test_error, unit) action" where
  "stop_containers d cs =
     bindR (join_all (poll_order d) (map (\<lambda>c. issue (StopContainer (clean_id c)) (b_stop_container d (clean_id c)))
              (filter (\<lambda>c. \<not> clean_is_static c) cs))) (\<lambda>_. returnR ())"

definition remove_containers :: "'w bollard \<Rightarrow> cleanup_container list \<Rightarrow> ('w sys, docker_test_error, unit) action" where
  "remove_containers d cs =
     bindR (join_all (poll_order d) (map (\<lambda>c. issue (RemoveContainer (clean_id c) True True)
                (b_remove_container d (clean_id c) True True))
              (filter (\<lambda>c. \<not> clean_is_static c) cs))) (\<lambda>_. returnR ())"

definition remove_container :: "'w bollard \<Rightarrow> string \<Rightarrow> ('w sys, docker_test_error, unit) action" where
  "remove_container d cid =
     ignore_err (issue (RemoveContainer cid True False) (b_remove_container d cid True False))"

definition disconnect_container :: "'w bollard \<Rightarrow> string \<Rightarrow> string \<Rightarrow> ('w sys, docker_test_error, unit) action" where
  "disconnect_container d cid nw =
     ignore_err (issue (DisconnectNetwork nw cid True) (b_disconnect_network d nw cid True))"

definition running_container_from_composition ::
  "'w bollard \<Rightarrow> composition \<Rightarrow> container_inspect_response
   \<Rightarrow> ('w sys, docker_test_error, operational_container) action" where
  "running_container_from_composition d c details =
     (case ir_id details of
        Some cid \<Rightarrow>
          bindR (new_state_cell (expected_state d (comp_wait c))) (\<lambda>a. returnR
            \<lparr>oper_handle = container_name c, oper_id = cid, oper_name = container_name c,
             oper_ip = UNSPECIFIED, oper_ports = [], oper_is_static = True,
             oper_log_options = comp_log_options c, oper_assumed_state = a\<rparr>)
      | None \<Rightarrow> failR (Daemon ''failed to retrieve container id for external container''))"

section \<open>Volumes (src/docker/volume.rs)\<close>

definition remove_volumes :: "'w bollard \<Rightarrow> string list \<Rightarrow> ('w sys, docker_test_error, unit) action" where
  "remove_volumes d vs =
     bindR (join_all (poll_order d) (map (\<lambda>v. issue (RemoveVolume v True) (b_remove_volume d v True)) vs))
       (\<lambda>_. returnR ())"

section \<open>Facts\<close>

lemma ignore_err_issue:
  obtains s' where "ignore_err (issue r f) s = (Ok (), s')" "calls s' = calls s @ [r]"
    "within (same g) (issue r f) \<Longrightarrow> g s' = g s"
proof -
  obtain x s' where i: "issue r f s = (x, s')" by (cases "issue r f s")
  then have "calls s' = calls s @ [r]" by (auto elim: issue_cases)
  moreover have "ignore_err (issue r f) s = (Ok (), s')"
    using i by (rule issue_cases) (use i in \<open>simp_all add: ignore_err_def ret_defs\<close>)
  ultimately show ?thesis
    using that i by (blast intro: within_same)
qed

lemma issues_ignore_err: "issues R m \<Longrightarrow> issues R (ignore_err m)"
  unfolding ignore_err_def by (intro issues_rules)

lemma same_ignore_err: "within (same g) m \<Longrightarrow> within (same g) (ignore_err m)"
  unfolding ignore_err_def by (intro same_rules)

text \<open>A loop of ignored requests issues exactly those requests, in order, and never fails.\<close>

lemma forR_ignored:
  "\<exists>s'. forR xs (\<lambda>x. ignore_err (issue (r x) (f x))) s = (Ok (), s')
     \<and> calls s' = calls s @ map r xs"
proof (induction xs arbitrary: s)
  case Nil
  then show ?case by (simp add: ret_defs)
next
  case (Cons x xs)
  obtain s1 where 1: "ignore_err (issue (r x) (f x)) s = (Ok (), s1)" "calls s1 = calls s @ [r x]"
    by (rule ignore_err_issue)
  obtain s' where "forR xs (\<lambda>x. ignore_err (issue (r x) (f x))) s1 = (Ok (), s')"
    "calls s' = calls s1 @ map r xs"
    using Cons by blast
  with 1 show ?case by simp
qed

lemma forR_ignored_calls:
  assumes "forR xs (\<lambda>x. ignore_err (issue (r x) (f x))) s = (q, s')"
  shows "q = Ok ()" "calls s' = calls s @ map r xs"
  using forR_ignored [of xs r f s] assms by auto

text \<open>Joined requests are all sent, in some order, and their errors are values.\<close>

lemma run_all_issues:
  "\<exists>rs s'. run_all (map (\<lambda>x. issue (r x) (f x)) xs) s = (Ok rs :: ('e, _) result, s')
     \<and> calls s' = calls s @ map r xs"
proof (induction xs arbitrary: s)
  case Nil
  then show ?case by (simp add: ret_defs)
next
  case (Cons x xs)
  obtain y s1 where y: "issue (r x) (f x) s = (y, s1)" by fastforce
  then have c: "calls s1 = calls s @ [r x]" using issue_calls(1) [of "r x" "f x" s] by simp
  obtain rs s' where rs: "run_all (map (\<lambda>x. issue (r x) (f x)) xs) s1 = (Ok rs :: ('e, _) result, s')"
    "calls s' = calls s1 @ map r xs"
    using Cons by blast
  from y show ?case
  proof (cases rule: issue_cases)
    case (1 e)
    with y rs c show ?thesis
      by (intro exI [of _ "Inl e # rs"] exI [of _ s']) (simp add: returnR_def)
  next
    case (2 a)
    with y rs c show ?thesis
      by (intro exI [of _ "Inr a # rs"] exI [of _ s']) (simp add: returnR_def)
  qed
qed

lemma join_all_issues:
  "\<exists>rs s' ps. join_all order (map (\<lambda>x. issue (r x) (f x)) xs) s = (Ok rs :: ('e, _) result, s')
     \<and> calls s' = calls s @ ps \<and> mset ps = mset (map r xs)"
proof -
  let ?ms = "map (\<lambda>x. issue (r x) (f x)) xs"
  let ?ks = "in_order (order (length ?ms) s) (length ?ms)"
  let ?ys = "map ((!) xs) ?ks"
  have ms: "map ((!) ?ms) ?ks = map (\<lambda>x. issue (r x) (f x)) ?ys" by simp
  obtain rs s' where "run_all (map ((!) ?ms) ?ks) s = (Ok rs :: ('e, _) result, s')"
    "calls s' = calls s @ map r ?ys"
    unfolding ms using run_all_issues [of r f ?ys s] by blast
  moreover have "mset (map r ?ys) = mset (map r xs)"
    unfolding mset_map [of r] by (rule arg_cong [OF map_in_order]) simp
  ultimately show ?thesis by (force simp: join_all_def reads_def returnR_def)
qed

lemma join_all_issues_calls:
  assumes "bindR (join_all order (map (\<lambda>x. issue (r x) (f x)) xs)) (\<lambda>_. returnR ()) s = (q :: ('e, _) result, s')"
  obtains ps where "q = Ok ()" and "calls s' = calls s @ ps" and "mset ps = mset (map r xs)"
proof -
  obtain rs t ps where "join_all order (map (\<lambda>x. issue (r x) (f x)) xs) s = (Ok rs :: ('e, _) result, t)"
    "calls t = calls s @ ps" "mset ps = mset (map r xs)"
    using join_all_issues by blast
  with assms that [of ps] show thesis by (simp add: returnR_def)
qed

lemma stop_containers_calls:
  assumes "stop_containers d cs s = (q, s')"
  obtains ps where "q = Ok ()" and "calls s' = calls s @ ps"
    and "mset ps = mset (map (\<lambda>c. StopContainer (clean_id c)) (filter (\<lambda>c. \<not> clean_is_static c) cs))"
  using assms unfolding stop_containers_def by (rule join_all_issues_calls)

lemma remove_containers_calls:
  assumes "remove_containers d cs s = (q, s')"
  obtains ps where "q = Ok ()" and "calls s' = calls s @ ps"
    and "mset ps = mset (map (\<lambda>c. RemoveContainer (clean_id c) True True) (filter (\<lambda>c. \<not> clean_is_static c) cs))"
  using assms unfolding remove_containers_def by (rule join_all_issues_calls)

lemma remove_volumes_calls:
  assumes "remove_volumes d vs s = (q, s')"
  obtains ps where "q = Ok ()" and "calls s' = calls s @ ps" and "mset ps = mset (map (\<lambda>v. RemoveVolume v True) vs)"
  using assms unfolding remove_volumes_def by (rule join_all_issues_calls)

lemma remove_container_calls:
  assumes "remove_container d cid s = (q, s')"
  shows "q = Ok ()" "calls s' = calls s @ [RemoveContainer cid True False]"
  using ignore_err_issue [of "RemoveContainer cid True False" _ s] assms
  unfolding remove_container_def by (metis Pair_inject)+

lemma disconnect_container_calls:
  assumes "disconnect_container d cid nw s = (q, s')"
  shows "q = Ok ()" "calls s' = calls s @ [DisconnectNetwork nw cid True]"
  using ignore_err_issue [of "DisconnectNetwork nw cid True" _ s] assms
  unfolding disconnect_container_def by (metis Pair_inject)+

lemma issues_get_container_state:
  "R (InspectContainer n) \<Longrightarrow> issues R (get_container_state d n)"
  unfolding get_container_state_def by (intro issues_rules) auto

lemma same_get_container_state:
  "(\<And>s w c. g (s\<lparr>world := w, calls := c\<rparr>) = g s) \<Longrightarrow> within (same g) (get_container_state d n)"
  unfolding get_container_state_def by (intro same_rules) auto

lemma issues_container_logs:
  "(\<And>a b. R (ContainerLogs cid True a b)) \<Longrightarrow> issues R (container_logs d cid src)"
  unfolding container_logs_def by (intro issues_rules) auto

lemma same_container_logs:
  "(\<And>s w c. g (s\<lparr>world := w, calls := c\<rparr>) = g s) \<Longrightarrow> within (same g) (container_logs d cid src)"
  unfolding container_logs_def by (intro same_rules) auto

lemma running_container_from_composition_Ok:
  assumes "running_container_from_composition d c details s = (Ok r, s')"
  shows "ir_id details = Some (oper_id r) \<and> oper_name r = container_name c
    \<and> oper_handle r = container_name c \<and> oper_is_static r
    \<and> s' = s\<lparr>state_cells := state_cells s @ [expected_state d (comp_wait c)]\<rparr>"
  using assms unfolding running_container_from_composition_def
  by (auto simp: new_state_cell_def action_defs split: option.splits)

lemma issues_running_container: "issues R (running_container_from_composition d c details)"
  unfolding running_container_from_composition_def by (intro issues_rules)

lemma same_running_container:
  "(\<And>s c. g (s\<lparr>state_cells := c\<rparr>) = g s) \<Longrightarrow>
   within (same g) (running_container_from_composition d c details)"
  unfolding running_container_from_composition_def by (intro same_rules) auto

end
