(* ===== verification/Docker_Networks.thy ===== *)
theory Docker_Networks
  imports Docker_Containers
begin

text \<open>
  \<open>src/docker/network.rs\<close>: creating, finding, joining and deleting the networks of the tests.
\<close>

section \<open>Operations\<close>

text \<open>
  The loop of \<open>existing_dockertest_network\<close> over the answer of the daemon, with the highest
  timestamp so far and its network's identifier. Rust compares strings byte by byte, as the
  lexicographic order on lists of characters does.
\<close>

fun latest_network ::
  "string \<Rightarrow> network_info list \<Rightarrow> string option \<Rightarrow> string option
   \<Rightarrow> ('s, docker_test_error, string option) action" where
  "latest_network network_name [] highest_timestamp highest_timestamp_id = returnR highest_timestamp_id"
| "latest_network network_name (n # ns) highest_timestamp highest_timestamp_id =
     (if ni_name n = Some network_name then
        (case ni_created n of
           Some timestamp \<Rightarrow>
             (case highest_timestamp of
                Some compare_timestamp \<Rightarrow>
                  if compare_timestamp < timestamp then
                    (case ni_id n of
                       None \<Rightarrow> unwrap_none
                     | Some i \<Rightarrow> latest_network network_name ns (Some timestamp) (Some i))
                  else latest_network network_name ns highest_timestamp highest_timestamp_id
              | None \<Rightarrow>
                  (case ni_id n of
                     None \<Rightarrow> unwrap_none
                   | Some i \<Rightarrow> latest_network network_name ns (Some timestamp) (Some i)))
         | None \<Rightarrow> latest_network network_name ns highest_timestamp highest_timestamp_id)
      else latest_network network_name ns highest_timestamp highest_timestamp_id)"

definition existing_dockertest_network ::
  "'w bollard \<Rightarrow> string \<Rightarrow> ('w sys, docker_test_error, string option) action" where
  "existing_dockertest_network d network_name =
     bindR (map_err (\<lambda>e. Startup (''failed to list networks: '' @ b_display d e))
              (issue (ListNetworks network_name) (b_list_networks d network_name))) (\<lambda>networks.
     latest_network network_name networks None None)"

definition create_singular_network_impl ::
  "'w bollard \<Rightarrow> string \<Rightarrow> ('w sys, docker_test_error, string) action" where
  "create_singular_network_impl d network_name =
     matchR (issue (CreateNetwork network_name) (b_create_network d network_name))
       returnR
       (\<lambda>e. case e of
          DockerResponseServerError status_code message \<Rightarrow>
            if status_code = 409 then
              bindR (existing_dockertest_network d network_name) (\<lambda>existing.
                case existing of None \<Rightarrow> unwrap_none | Some i \<Rightarrow> returnR i)
            else failR (Startup (''failed to create singular network: '' @ message))
        | OtherError _ \<Rightarrow> failR (Startup (''failed to create singular network: '' @ b_display d e)))"

definition add_self_to_network ::
  "'w bollard \<Rightarrow> string \<Rightarrow> string \<Rightarrow> ('w sys, docker_test_error, unit) action" where
  "add_self_to_network d container_id network_name =
     map_err (\<lambda>e. Startup (''failed to add internal container to dockertest network: '' @ b_display d e))
       (issue (ConnectNetwork network_name container_id)
          (b_connect_network d network_name container_id))"

definition create_network ::
  "'w bollard \<Rightarrow> string \<Rightarrow> string option \<Rightarrow> ('w sys, docker_test_error, unit) action" where
  "create_network d network_name self_container =
     bindR (attempt (map_err (\<lambda>e. Startup (''creating docker network failed: '' @ b_display d e))
        (issue (CreateNetwork network_name) (b_create_network d network_name)))) (\<lambda>res.
     bindR (case self_container of
              Some cid \<Rightarrow>
                matchR (add_self_to_network d cid network_name) returnR (\<lambda>e.
                  bindR (ignore_err (issue (RemoveNetwork network_name) (b_remove_network d network_name)))
                    (\<lambda>_. failR e))
            | None \<Rightarrow> returnR ()) (\<lambda>_.
     liftE (map_sum id (\<lambda>_. ()) res)))"

definition delete_network ::
  "'w bollard \<Rightarrow> string \<Rightarrow> string option \<Rightarrow> ('w sys, docker_test_error, unit) action" where
  "delete_network d network_name self_container =
     bindR (case self_container of
              Some cid \<Rightarrow> ignore_err (issue (DisconnectNetwork network_name cid True)
                            (b_disconnect_network d network_name cid True))
            | None \<Rightarrow> returnR ()) (\<lambda>_.
     ignore_err (issue (RemoveNetwork network_name) (b_remove_network d network_name)))"

definition add_container_to_network ::
  "'w bollard \<Rightarrow> string \<Rightarrow> string \<Rightarrow> ('w sys, docker_test_error, unit) action" where
  "add_container_to_network d container_id network =
     matchR (issue (ConnectNetwork network container_id) (b_connect_network d network container_id))
       (\<lambda>_. returnR ())
       (\<lambda>e. case e of
          DockerResponseServerError status_code _ \<Rightarrow>
            if status_code = 403 then returnR ()
            else failR (Startup (''failed to add static container to dockertest network: '' @ b_display d e))
        | OtherError _ \<Rightarrow>
            failR (Startup (''failed to add static container to dockertest network: '' @ b_display d e)))"

section \<open>Facts\<close>

text \<open>The networks the loop looks at, and the specification of its result.\<close>

definition candidate :: "string \<Rightarrow> network_info \<Rightarrow> bool" where
  "candidate network_name n \<longleftrightarrow> ni_name n = Some network_name \<and> ni_created n \<noteq> None"

definition is_latest :: "string \<Rightarrow> network_info list \<Rightarrow> string option \<Rightarrow> bool" where
  "is_latest network_name ns x \<longleftrightarrow>
     (case x of
        None \<Rightarrow> \<forall>n \<in> set ns. \<not> candidate network_name n
      | Some i \<Rightarrow> \<exists>n \<in> set ns. candidate network_name n \<and> ni_id n = Some i
          \<and> (\<forall>m \<in> set ns. candidate network_name m \<longrightarrow> the (ni_created m) \<le> the (ni_created n)))"

lemma is_latest_set: "set ns = set ms \<Longrightarrow> is_latest nw ns x = is_latest nw ms x"
  by (simp add: is_latest_def split: option.split)

lemma is_latest_add:
  assumes "is_latest nw ns (Some i)"
    and "candidate nw m \<Longrightarrow> \<exists>k \<in> set ns. candidate nw k \<and> the (ni_created m) \<le> the (ni_created k)"
  shows "is_latest nw (m # ns) (Some i)"
proof -
  obtain n where n: "n \<in> set ns" "candidate nw n" "ni_id n = Some i"
    and max: "\<forall>m \<in> set ns. candidate nw m \<longrightarrow> the (ni_created m) \<le> the (ni_created n)"
    using assms(1) by (auto simp: is_latest_def)
  have "candidate nw m \<longrightarrow> the (ni_created m) \<le> the (ni_created n)"
    using assms(2) max order_trans by blast
  with n max show ?thesis by (auto simp: is_latest_def)
qed

lemma latest_network_step:
  assumes "latest_network nw (n # ns) (Some t) i s = (Ok x, s')"
    and "candidate nw n" and "t < the (ni_created n)"
  shows "ni_id n \<noteq> None \<and> latest_network nw ns (ni_created n) (ni_id n) s = (Ok x, s')"
  using assms by (cases "ni_id n") (auto simp: candidate_def unwrap_none_def ret_defs)

lemma latest_network_skip:
  assumes "candidate nw n \<Longrightarrow> \<not> t < the (ni_created n)"
  shows "latest_network nw (n # ns) (Some t) i = latest_network nw ns (Some t) i"
  using assms by (cases "ni_created n") (auto simp: candidate_def)

lemma latest_network_sound:
  assumes "latest_network nw ns (ni_created h) (ni_id h) s = (Ok x, s')"
    and "candidate nw h" and "ni_id h \<noteq> None"
  shows "s' = s \<and> (\<exists>i. x = Some i \<and> is_latest nw (h # ns) (Some i))"
  using assms
proof (induction ns arbitrary: h)
  case Nil
  then show ?case by (auto simp: ret_defs is_latest_def)
next
  case (Cons n ns)
  obtain t where t: "ni_created h = Some t" using Cons.prems(2) by (auto simp: candidate_def)
  show ?case
  proof (cases "candidate nw n \<and> t < the (ni_created n)")
    case True
    then have "ni_id n \<noteq> None \<and> latest_network nw ns (ni_created n) (ni_id n) s = (Ok x, s')"
      using Cons.prems(1) t latest_network_step by metis
    with True obtain i where i: "s' = s" "x = Some i" "is_latest nw (n # ns) (Some i)"
      using Cons.IH [of n] by blast
    from this(3) have "is_latest nw (h # n # ns) (Some i)"
      by (rule is_latest_add) (use True t in auto)
    with i show ?thesis by blast
  next
    case False
    then have "latest_network nw ns (ni_created h) (ni_id h) s = (Ok x, s')"
      using Cons.prems(1) t latest_network_skip by metis
    with Cons.prems(2,3) obtain i where i: "s' = s" "x = Some i" "is_latest nw (h # ns) (Some i)"
      using Cons.IH [of h] by blast
    from this(3) have "is_latest nw (n # h # ns) (Some i)"
      by (rule is_latest_add) (use False t Cons.prems(2) in auto)
    with i show ?thesis using is_latest_set [of "n # h # ns" "h # n # ns"] by auto
  qed
qed

lemma latest_network_start:
  assumes "latest_network nw ns None None s = (Ok x, s')"
  shows "s' = s \<and> is_latest nw ns x"
  using assms
proof (induction ns)
  case Nil
  then show ?case by (simp add: ret_defs is_latest_def)
next
  case (Cons n ns)
  show ?case
  proof (cases "candidate nw n")
    case True
    then have "ni_id n \<noteq> None \<and> latest_network nw ns (ni_created n) (ni_id n) s = (Ok x, s')"
      using Cons.prems by (cases "ni_id n") (auto simp: candidate_def unwrap_none_def ret_defs)
    then have n: "ni_id n \<noteq> None" and l: "latest_network nw ns (ni_created n) (ni_id n) s = (Ok x, s')"
      by simp_all
    show ?thesis using latest_network_sound [OF l True n] by auto
  next
    case False
    then have "latest_network nw (n # ns) None None s = latest_network nw ns None None s"
      by (cases "ni_created n") (auto simp: candidate_def)
    then have "s' = s \<and> is_latest nw ns x" using Cons by simp
    then show ?thesis using False by (cases x) (auto simp: is_latest_def)
  qed
qed

lemma latest_network_pure: "snd (latest_network nw ns h i s) = s"
proof (induction ns arbitrary: h i)
  case (Cons n ns)
  then show ?case
    by (cases h; cases "ni_created n"; cases "ni_id n") (simp_all add: ret_defs unwrap_none_def)
qed (simp add: ret_defs)

lemma within_latest_network: "(\<And>s. rel s s) \<Longrightarrow> within rel (latest_network nw ns h i)"
  by (simp add: within_def latest_network_pure)

lemma issues_networks:
  "R (ListNetworks nw) \<Longrightarrow> issues R (existing_dockertest_network d nw)"
  "R (ConnectNetwork nw cid) \<Longrightarrow> issues R (add_self_to_network d cid nw)"
  "R (ConnectNetwork nw cid) \<Longrightarrow> issues R (add_container_to_network d cid nw)"
  "R (CreateNetwork nw) \<Longrightarrow> R (ListNetworks nw) \<Longrightarrow> issues R (create_singular_network_impl d nw)"
proof -
  show e: "R (ListNetworks nw) \<Longrightarrow> issues R (existing_dockertest_network d nw)"
    unfolding existing_dockertest_network_def
    by (intro issues_rules within_latest_network) (auto simp: extends_def)
  show "R (ConnectNetwork nw cid) \<Longrightarrow> issues R (add_self_to_network d cid nw)"
    unfolding add_self_to_network_def by (intro issues_rules)
  show "R (ConnectNetwork nw cid) \<Longrightarrow> issues R (add_container_to_network d cid nw)"
    unfolding add_container_to_network_def
    by (intro issues_rules) (auto intro: issues_rules split: b_error.split)
  show "R (CreateNetwork nw) \<Longrightarrow> R (ListNetworks nw) \<Longrightarrow> issues R (create_singular_network_impl d nw)"
    unfolding create_singular_network_impl_def unwrap_none_def
    by (intro issues_rules) (auto intro!: issues_rules e split: b_error.split option.split)
qed

lemma same_networks:
  assumes g: "\<And>s w c. g (s\<lparr>world := w, calls := c\<rparr>) = g s"
  shows "within (same g) (existing_dockertest_network d nw)"
    and "within (same g) (add_self_to_network d cid nw)"
    and "within (same g) (add_container_to_network d cid nw)"
    and "within (same g) (create_singular_network_impl d nw)"
    and "within (same g) (create_network d nw self_id)"
    and "within (same g) (delete_network d nw self_id)"
proof -
  show e: "within (same g) (existing_dockertest_network d nw)"
    unfolding existing_dockertest_network_def
    by (intro same_rules within_latest_network g) (simp add: same_def)
  show a: "within (same g) (add_self_to_network d cid nw)" for cid
    unfolding add_self_to_network_def by (intro same_rules g)
  show "within (same g) (add_container_to_network d cid nw)"
    unfolding add_container_to_network_def
    by (intro same_rules g) (auto intro: same_rules split: b_error.split)
  show "within (same g) (create_singular_network_impl d nw)"
    unfolding create_singular_network_impl_def unwrap_none_def
    by (intro same_rules g) (auto intro!: same_rules e split: b_error.split option.split)
  show "within (same g) (create_network d nw self_id)"
    unfolding create_network_def by (intro same_rules same_ignore_err a g)
  show "within (same g) (delete_network d nw self_id)"
    unfolding delete_network_def by (intro same_rules same_ignore_err g)
qed

section \<open>Properties\<close>

text \<open>
  C34: the search for an existing network answers with the identifier of a network of exactly that
  name with the greatest creation timestamp, and with nothing only when no network of that name
  carries a timestamp; it asks the daemon once.
\<close>

theorem existing_network_latest:
  assumes "existing_dockertest_network d nw s = (Ok x, s')"
  shows "\<exists>ns. fst (b_list_networks d nw (world s)) = Inr ns \<and> is_latest nw ns x
    \<and> calls s' = calls s @ [ListNetworks nw]"
proof -
  obtain ns s1 where 1: "map_err (\<lambda>e. Startup (''failed to list networks: '' @ b_display d e))
      (issue (ListNetworks nw) (b_list_networks d nw)) s = (Ok ns, s1)"
    and 2: "latest_network nw ns None None s1 = (Ok x, s')"
    using assms unfolding existing_dockertest_network_def by (rule bindR_Ok)
  have "fst (b_list_networks d nw (world s)) = Inr ns \<and> calls s1 = calls s @ [ListNetworks nw]"
    using 1 by (auto simp: map_err_issue split: sum.splits)
  with latest_network_start [OF 2] show ?thesis by blast
qed

text \<open>
  C33: creating the network of an isolated test from inside a container never leaves a network the
  process could not join: the trace is the creation, then the joining, then, exactly when the
  joining failed, the removal; and the result is the joining's error if it failed, and otherwise
  that of the creation.
\<close>

theorem create_network_trace:
  assumes "create_network d nw (Some cid) s = (r, s')"
  shows "\<exists>w. (calls s' = calls s @ [CreateNetwork nw, ConnectNetwork nw cid]
        \<and> fst (b_connect_network d nw cid w) = Inr ()
        \<and> (r = Ok () \<longleftrightarrow> (\<exists>i. fst (b_create_network d nw (world s)) = Inr i)))
    \<or> (calls s' = calls s @ [CreateNetwork nw, ConnectNetwork nw cid, RemoveNetwork nw]
        \<and> (\<exists>e. fst (b_connect_network d nw cid w) = Inl e
            \<and> r = Err (Startup (''failed to add internal container to dockertest network: ''
                          @ b_display d e))))"
proof -
  define s1 where "s1 = snd (issue (CreateNetwork nw) (b_create_network d nw) s)"
  have s1: "calls s1 = calls s @ [CreateNetwork nw]" by (simp add: s1_def)
  define res where "res = fst (b_create_network d nw (world s))"
  let ?c = "map_err (\<lambda>e. Startup (''creating docker network failed: '' @ b_display d e))
        (issue (CreateNetwork nw) (b_create_network d nw))"
  have a: "attempt ?c s = ((Ok (map_sum (\<lambda>e. Startup (''creating docker network failed: '' @ b_display d e)) id res)
      :: (docker_test_error, docker_test_error + string) result), s1)"
    by (simp add: attempt_def matchR_def map_err_issue ret_defs s1_def res_def split: sum.split)
  define s2 where "s2 = snd (issue (ConnectNetwork nw cid) (b_connect_network d nw cid) s1)"
  have s2: "calls s2 = calls s1 @ [ConnectNetwork nw cid]" by (simp add: s2_def)
  show ?thesis
  proof (cases "fst (b_connect_network d nw cid (world s1))")
    case (Inr u)
    then have c: "add_self_to_network d cid nw s1 = (Ok (), s2)"
      by (simp add: add_self_to_network_def map_err_issue s2_def)
    let ?res = "map_sum (\<lambda>e. Startup (''creating docker network failed: '' @ b_display d e)) id res"
    have "(r, s') = liftE (map_sum id (\<lambda>_. ()) ?res) s2"
      using assms a c by (simp add: create_network_def ret_defs)
    then have "(r = Ok () \<longleftrightarrow> (\<exists>i. res = Inr i)) \<and> s' = s2"
      by (cases res) (simp_all add: ret_defs liftE_def)
    with s1 s2 Inr show ?thesis by (auto simp: res_def)
  next
    case (Inl e)
    let ?e = "Startup (''failed to add internal container to dockertest network: '' @ b_display d e)"
    from Inl have c: "add_self_to_network d cid nw s1 = (Err ?e, s2)"
      by (simp add: add_self_to_network_def map_err_issue s2_def)
    obtain s3 where s3: "ignore_err (issue (RemoveNetwork nw) (b_remove_network d nw)) s2 = (Ok (), s3)"
      "calls s3 = calls s2 @ [RemoveNetwork nw]"
      by (rule ignore_err_issue)
    have "r = Err ?e" "s' = s3"
      using assms a c s3(1) by (simp_all add: create_network_def ret_defs)
    with s1 s2 s3 Inl show ?thesis by auto
  qed
qed

end
