(* ===== verification/Docker_Creation.thy ===== *)
theory Docker_Creation
  imports Docker_Networks
begin

text \<open>
  The creation of a container in the daemon, \<open>src/docker/composition.rs\<close>: how a composition becomes
  the body of a create request, and the removal of a left-over container of the same name.
\<close>

section \<open>Operations\<close>

definition remove_container_if_exists ::
  "'w bollard \<Rightarrow> string \<Rightarrow> ('w sys, docker_test_error, unit) action" where
  "remove_container_if_exists d n =
     bindR (map_err (\<lambda>e. Recoverable (''container did not exist: '' @ b_display d e))
              (issue (InspectContainer n) (b_inspect_container d n))) (\<lambda>_.
     map_err (\<lambda>e. Daemon (''failed to remove existing container: '' @ b_display d e))
       (issue (RemoveContainer n True False) (b_remove_container d n True False)))"

text \<open>
  The maps \<open>port_map\<close>, \<open>exposed_ports\<close> and \<open>tmpfs\<close>: inserting a key again replaces its value.
\<close>

definition port_bindings_of :: "(string \<times> string) list \<Rightarrow> (string \<times> port_binding list) list" where
  "port_bindings_of ports = fold (\<lambda>(exposed, host) m. AList.update exposed
     [\<lparr>pb_host_ip = Some ''127.0.0.1'', pb_host_port = Some host\<rparr>] m) ports []"

definition tmpfs_of :: "string list \<Rightarrow> (string \<times> string) list" where
  "tmpfs_of paths = fold (\<lambda>v m. AList.update v '''' m) paths []"

definition create_body :: "composition \<Rightarrow> string \<Rightarrow> string option \<Rightarrow> container_create_body" where
  "create_body c image_id network =
     \<lparr>cb_image = image_id,
      cb_cmd = comp_cmd c,
      cb_env = map (\<lambda>(key, value). key @ ''='' @ value) (comp_env c),
      cb_aliases = (case network of
          Some n \<Rightarrow> map_option (\<lambda>a. (n, a)) (network_aliases c)
        | None \<Rightarrow> None),
      cb_host_config = map_option (\<lambda>n.
        \<lparr>hc_network_mode = n,
         hc_binds = bind_mounts c @ final_named_volume_names c,
         hc_port_bindings = port_bindings_of (comp_port c),
         hc_publish_all_ports = comp_publish_all_ports c,
         hc_privileged = comp_privileged c,
         hc_tmpfs = tmpfs_of (comp_tmpfs c)\<rparr>) network,
      cb_exposed_ports = map fst (port_bindings_of (comp_port c))\<rparr>"

definition missing_image_id :: docker_test_error where
  "missing_image_id = Processing (''`Composition::create()` invoked without populating its image''
     @ '' through `Image::pull()`'')"

definition create_container_inner ::
  "'w bollard \<Rightarrow> composition \<Rightarrow> string option
   \<Rightarrow> ('w sys, docker_test_error, pending_container) action" where
  "create_container_inner d c network =
     bindR (if \<not> is_static c then
              matchR (remove_container_if_exists d (container_name c)) returnR
                (\<lambda>e. case e of Recoverable _ \<Rightarrow> returnR () | _ \<Rightarrow> failR e)
            else returnR ()) (\<lambda>_.
     bindR (retrieved_id (comp_image c)) (\<lambda>image_id.
     if image_id = [] then failR missing_image_id
     else
       bindR (map_err (\<lambda>e. Daemon (''failed to create container: '' @ b_display d e))
                (issue (CreateContainer (container_name c) (create_body c image_id network))
                   (b_create_container d (container_name c) (create_body c image_id network)))) (\<lambda>cid.
       returnR (PendingContainer_new d (container_name c) cid (handle c) (comp_start_policy c)
         (comp_wait c) (static_management_policy_of c) (comp_log_options c)))))"

section \<open>Facts\<close>

text \<open>What a composition's container is in the daemon: a creation request for its own name.\<close>

definition creates :: "string \<Rightarrow> request \<Rightarrow> bool" where
  "creates n r \<longleftrightarrow> (\<exists>b. r = CreateContainer n b)"

lemma creates_CreateContainer [simp]: "creates n (CreateContainer m b) \<longleftrightarrow> m = n"
  by (auto simp: creates_def)

lemma map_of_port_bindings:
  "map_of (port_bindings_of ports) key =
     map_option (\<lambda>host. [\<lparr>pb_host_ip = Some ''127.0.0.1'', pb_host_port = Some host\<rparr>])
       (map_of (rev ports) key)"
proof -
  have "map_of (fold (\<lambda>(e, h) m. AList.update e [\<lparr>pb_host_ip = Some ''127.0.0.1'', pb_host_port = Some h\<rparr>] m) ports m0) key
    = (case map_of (rev ports) key of
         Some host \<Rightarrow> Some [\<lparr>pb_host_ip = Some ''127.0.0.1'', pb_host_port = Some host\<rparr>]
       | None \<Rightarrow> map_of m0 key)" for m0
    by (induction ports arbitrary: m0) (auto simp: update_conv' map_add_def split: option.split)
  from this [of "[]"] show ?thesis by (simp add: port_bindings_of_def split: option.split)
qed

lemma dom_port_bindings: "fst ` set (port_bindings_of ports) = fst ` set ports"
proof -
  have "dom (map_of (port_bindings_of ports)) = dom (map_of (rev ports))"
    by (auto simp: dom_def map_of_port_bindings)
  then show ?thesis by (simp add: dom_map_of_conv_image_fst)
qed

lemma tmpfs_of_facts:
  "distinct (map fst (tmpfs_of paths))" "fst ` set (tmpfs_of paths) = set paths"
proof -
  have "distinct (map fst m) \<Longrightarrow>
      distinct (map fst (fold (\<lambda>v m. AList.update v '''' m) paths m))
      \<and> fst ` set (fold (\<lambda>v m. AList.update v '''' m) paths m) = fst ` set m \<union> set paths"
    for m :: "(string \<times> string) list"
    by (induction paths arbitrary: m) (auto simp: distinct_update)
  from this [of "[]"] show "distinct (map fst (tmpfs_of paths))" "fst ` set (tmpfs_of paths) = set paths"
    by (simp_all add: tmpfs_of_def)
qed

lemma issues_remove_if_exists:
  "R (InspectContainer n) \<Longrightarrow> R (RemoveContainer n True False) \<Longrightarrow>
   issues R (remove_container_if_exists d n)"
  unfolding remove_container_if_exists_def by (intro issues_rules)

lemma same_remove_if_exists:
  "(\<And>s w c. g (s\<lparr>world := w, calls := c\<rparr>) = g s) \<Longrightarrow> within (same g) (remove_container_if_exists d n)"
  unfolding remove_container_if_exists_def by (intro same_rules)

lemma issues_retrieved_id: "issues R (retrieved_id i)"
  unfolding retrieved_id_def by (intro issues_rules)

lemma same_retrieved_id: "within (same g) (retrieved_id i)"
  unfolding retrieved_id_def by (intro same_rules)

lemma issues_create_container_inner:
  assumes "\<not> is_static c \<Longrightarrow> R (InspectContainer (container_name c))"
    and "\<not> is_static c \<Longrightarrow> R (RemoveContainer (container_name c) True False)"
    and "\<And>b. R (CreateContainer (container_name c) b)"
  shows "issues R (create_container_inner d c network)"
  unfolding create_container_inner_def
  by (intro issues_rules issues_remove_if_exists issues_retrieved_id assms)
     (auto intro: issues_rules split: docker_test_error.split)

lemma same_create_container_inner:
  assumes "\<And>s w c. g (s\<lparr>world := w, calls := c\<rparr>) = g s"
  shows "within (same g) (create_container_inner d c network)"
  unfolding create_container_inner_def
  by (intro same_rules same_remove_if_exists same_retrieved_id assms)
     (auto intro: same_rules split: docker_test_error.split)

lemma remove_if_exists_cases:
  assumes "remove_container_if_exists d n s = (r, s')"
  obtains e where "r = Err (Recoverable e)" "calls s' = calls s @ [InspectContainer n]"
  | e where "r = Err (Daemon e)"
      "calls s' = calls s @ [InspectContainer n, RemoveContainer n True False]"
  | "r = Ok ()" "calls s' = calls s @ [InspectContainer n, RemoveContainer n True False]"
proof -
  define s1 where "s1 = snd (issue (InspectContainer n) (b_inspect_container d n) s)"
  define s2 where "s2 = snd (issue (RemoveContainer n True False) (b_remove_container d n True False) s1)"
  have c: "calls s1 = calls s @ [InspectContainer n]" "calls s2 = calls s1 @ [RemoveContainer n True False]"
    by (simp_all add: s1_def s2_def)
  show thesis
  proof (cases "fst (b_inspect_container d n (world s))")
    case (Inl e)
    then show ?thesis
      using that(1) assms c by (auto simp: remove_container_if_exists_def map_err_issue s1_def)
  next
    case i: (Inr a)
    show ?thesis
      using that(2,3) assms c i
      by (cases "fst (b_remove_container d n True False (world s1))")
         (auto simp: remove_container_if_exists_def map_err_issue s1_def s2_def)
  qed
qed

definition removes_stale :: "composition \<Rightarrow> request list \<Rightarrow> bool" where
  "removes_stale c rs \<longleftrightarrow>
     (if is_static c then rs = []
      else rs = [InspectContainer (container_name c)]
        \<or> rs = [InspectContainer (container_name c), RemoveContainer (container_name c) True False])"

text \<open>The three phases of the creation, for the proofs.\<close>

definition creation_prefix :: "'w bollard \<Rightarrow> composition \<Rightarrow> ('w sys, docker_test_error, unit) action" where
  "creation_prefix d c =
     (if \<not> is_static c then
        matchR (remove_container_if_exists d (container_name c)) returnR
          (\<lambda>e. case e of Recoverable _ \<Rightarrow> returnR () | _ \<Rightarrow> failR e)
      else returnR ())"

definition creation_request :: "'w bollard \<Rightarrow> composition \<Rightarrow> string option \<Rightarrow> string
  \<Rightarrow> ('w sys, docker_test_error, pending_container) action" where
  "creation_request d c network image_id =
     bindR (map_err (\<lambda>e. Daemon (''failed to create container: '' @ b_display d e))
              (issue (CreateContainer (container_name c) (create_body c image_id network))
                 (b_create_container d (container_name c) (create_body c image_id network)))) (\<lambda>cid.
     returnR (PendingContainer_new d (container_name c) cid (handle c) (comp_start_policy c)
       (comp_wait c) (static_management_policy_of c) (comp_log_options c)))"

lemma create_container_inner_phases:
  "create_container_inner d c network = bindR (creation_prefix d c) (\<lambda>_.
     bindR (retrieved_id (comp_image c)) (\<lambda>image_id.
     if image_id = [] then failR missing_image_id
     else creation_request d c network image_id))"
  unfolding create_container_inner_def creation_prefix_def creation_request_def by (rule refl)

lemma creation_prefix_Ok:
  assumes "creation_prefix d c s = (Ok u, s')"
  shows "\<exists>rs. calls s' = calls s @ rs \<and> removes_stale c rs \<and> id_cells s' = id_cells s"
proof (cases "is_static c")
  case True
  then show ?thesis
    using assms by (auto simp: creation_prefix_def removes_stale_def ret_defs)
next
  case False
  obtain r s1 where r: "remove_container_if_exists d (container_name c) s = (r, s1)"
    by (cases "remove_container_if_exists d (container_name c) s")
  have ids: "id_cells s1 = id_cells s"
    using same_remove_if_exists [of id_cells] r by (rule within_same) simp
  from r show ?thesis
    by (rule remove_if_exists_cases)
       (use assms r False ids in \<open>auto simp: creation_prefix_def removes_stale_def ret_defs\<close>)
qed

lemma creation_request_Ok:
  assumes "creation_request d c network image_id s = (Ok p, s')"
  shows "calls s' = calls s @ [CreateContainer (container_name c) (create_body c image_id network)]
    \<and> (\<exists>cid. fst (b_create_container d (container_name c) (create_body c image_id network) (world s)) = Inr cid
        \<and> p = PendingContainer_new d (container_name c) cid (handle c) (comp_start_policy c)
           (comp_wait c) (static_management_policy_of c) (comp_log_options c))"
  using assms unfolding creation_request_def
  by (elim bindR_Ok) (auto simp: map_err_issue ret_defs split: sum.splits)

lemma create_container_inner_Ok:
  assumes "create_container_inner d c network s = (Ok p, s')"
  obtains cid rs image_id w where
    "p = PendingContainer_new d (container_name c) cid (handle c) (comp_start_policy c)
       (comp_wait c) (static_management_policy_of c) (comp_log_options c)"
    "image_id = id_cells s ! img_id (comp_image c)" "image_id \<noteq> []"
    "fst (b_create_container d (container_name c) (create_body c image_id network) w) = Inr cid"
    "removes_stale c rs"
    "calls s' = calls s @ rs @ [CreateContainer (container_name c) (create_body c image_id network)]"
proof -
  from assms obtain u s1 image_id s2 where s1: "creation_prefix d c s = (Ok u, s1)"
    and r: "retrieved_id (comp_image c) s1 = (Ok image_id :: (docker_test_error, string) result, s2)"
    and c: "(if image_id = [] then failR missing_image_id
     else creation_request d c network image_id) s2 = (Ok p, s')"
    unfolding create_container_inner_phases by (elim bindR_Ok) (rule that)
  have i: "retrieved_id (comp_image c) s1 = (Ok image_id :: (docker_test_error, string) result, s2)" "image_id \<noteq> []"
    and cr: "creation_request d c network image_id s2 = (Ok p, s')"
    using r c by (simp_all add: ret_defs split: if_splits)
  obtain rs where rs: "calls s1 = calls s @ rs" "removes_stale c rs" "id_cells s1 = id_cells s"
    using creation_prefix_Ok [OF s1] by blast
  have "s2 = s1" "image_id = id_cells s ! img_id (comp_image c)"
    using i(1) rs(3) by (auto simp: retrieved_id_def read_cell_def reads_def ret_defs split: if_splits)
  with that i(2) rs creation_request_Ok [OF cr] show thesis by auto
qed

section \<open>Properties\<close>

text \<open>
  C23: a created container carries the composition's name, handle, policies and log options and the
  identifier the daemon gave; it is made by exactly one create request, with the image identifier
  that pulling stored and the body of the composition, preceded by nothing but the removal of a
  stale container of its own name, which a static container does not even get.
\<close>

theorem created_container_request:
  assumes "create_container_inner d c network s = (Ok p, s')"
  shows "\<exists>cid rs w. let image_id = id_cells s ! img_id (comp_image c) in
     p = PendingContainer_new d (container_name c) cid (handle c) (comp_start_policy c)
           (comp_wait c) (static_management_policy_of c) (comp_log_options c)
     \<and> image_id \<noteq> [] \<and> removes_stale c rs
     \<and> fst (b_create_container d (container_name c) (create_body c image_id network) w) = Inr cid
     \<and> calls s' = calls s @ rs @ [CreateContainer (container_name c) (create_body c image_id network)]"
  using assms by (rule create_container_inner_Ok) (auto simp: Let_def)

text \<open>
  The port bindings and tmpfs mounts of the create request hold exactly what was configured:
  a port has a single binding, on the loopback address, to the host port configured last for it, and
  the exposed ports are the bound ones; every tmpfs path appears once.
\<close>

lemma create_body_ports:
  shows "map_of (port_bindings_of (comp_port c)) key =
      map_option (\<lambda>host. [\<lparr>pb_host_ip = Some ''127.0.0.1'', pb_host_port = Some host\<rparr>])
        (map_of (rev (comp_port c)) key)
    \<and> set (cb_exposed_ports (create_body c image_id network)) = fst ` set (comp_port c)
    \<and> distinct (map fst (tmpfs_of (comp_tmpfs c)))
    \<and> fst ` set (tmpfs_of (comp_tmpfs c)) = set (comp_tmpfs c)"
  by (simp add: map_of_port_bindings create_body_def tmpfs_of_facts dom_port_bindings)

end
