(* ===== verification/Registry.thy ===== *)
theory Registry
  imports Docker_Creation
begin

text \<open>
  The contract of the global registries: an object shared by every test of the binary is asked of
  the daemon at most once, whatever the tests do and in whichever order their calls take the
  registry's lock.
\<close>

section \<open>Counting requests\<close>

definition adds :: "(request \<Rightarrow> bool) \<Rightarrow> nat \<Rightarrow> ('w sys \<Rightarrow> 'a \<times> 'w sys) \<Rightarrow> bool" where
  "adds P k m \<longleftrightarrow> (\<forall>s. \<exists>rs. calls (snd (m s)) = calls s @ rs \<and> length (filter P rs) \<le> k)"

lemma addsD: "adds P k m \<Longrightarrow> m s = (r, s') \<Longrightarrow> \<exists>rs. calls s' = calls s @ rs \<and> length (filter P rs) \<le> k"
  by (metis adds_def snd_conv)

lemma adds_weaken: "adds P j m \<Longrightarrow> j \<le> k \<Longrightarrow> adds P k m"
  by (meson adds_def order_trans)

lemma adds_none:
  assumes "issues (\<lambda>r. \<not> P r) m"
  shows "adds P k m"
  unfolding adds_def
proof
  fix s
  obtain r s' where m: "m s = (r, s')" by (cases "m s")
  with assms have "extends (\<lambda>r. \<not> P r) s s'" by (rule withinD)
  then obtain rs where "calls s' = calls s @ rs" "filter P rs = []"
    by (auto simp: extends_def list_all_iff)
  with m show "\<exists>rs. calls (snd (m s)) = calls s @ rs \<and> length (filter P rs) \<le> k" by auto
qed

lemma adds_issue: "adds P (Suc 0) (issue r f)"
  by (simp add: adds_def)

lemma adds_match:
  fixes m :: "('w sys, 'e, 'a) action" and ok :: "'a \<Rightarrow> ('w sys, 'f, 'b) action"
  assumes "adds P j m" and "\<And>a. adds P k (ok a)" and "\<And>e. adds P k (err e)"
  shows "adds P (j + k) (matchR m ok err)"
  unfolding adds_def
proof
  fix s
  obtain r s1 where m: "m s = (r, s1)" by (cases "m s")
  obtain rs where rs: "calls s1 = calls s @ rs" "length (filter P rs) \<le> j"
    using addsD [OF assms(1) m] by blast
  have *: "\<exists>rs'. calls (snd (n s1)) = calls s @ rs' \<and> length (filter P rs') \<le> j + k"
    if n: "adds P k n" for n :: "('w sys, 'f, 'b) action"
  proof -
    obtain rs' where "calls (snd (n s1)) = calls s1 @ rs'" "length (filter P rs') \<le> k"
      using n unfolding adds_def by blast
    with rs show ?thesis by (intro exI [of _ "rs @ rs'"]) simp
  qed
  show "\<exists>rs'. calls (snd (matchR m ok err s)) = calls s @ rs' \<and> length (filter P rs') \<le> j + k"
    using m rs * [OF assms(2)] * [OF assms(3)] by (cases r) auto
qed

lemma adds_bind:
  "adds P j m \<Longrightarrow> (\<And>a. adds P k (f a)) \<Longrightarrow> adds P (j + k) (bindR m f)"
  unfolding bindR_def by (rule adds_match) (simp_all add: adds_def ret_defs)

lemma adds_map_err: "adds P k m \<Longrightarrow> adds P k (map_err g m)"
  unfolding map_err_def
  by (rule adds_match [where k = 0, simplified]) (simp_all add: adds_def ret_defs)

section \<open>Create-once registries\<close>

text \<open>
  One call under the registry's lock, with its argument \<open>k\<close>; calls of other operations, which issue
  no creating request and forget no entry, may come in between.
\<close>

inductive registry_run ::
  "('k \<Rightarrow> ('w sys, docker_test_error, 'a) action) \<Rightarrow> ('w sys \<Rightarrow> string \<Rightarrow> bool)
   \<Rightarrow> (string \<Rightarrow> request \<Rightarrow> bool) \<Rightarrow> 'w sys \<Rightarrow> 'w sys \<Rightarrow> bool"
  for opn present creating s where
  start: "registry_run opn present creating s s"
| call: "registry_run opn present creating s t \<Longrightarrow> opn k t = (r, u) \<Longrightarrow> (\<And>p. r \<noteq> Panic p) \<Longrightarrow>
    registry_run opn present creating s u"
| other: "registry_run opn present creating s t \<Longrightarrow> extends (\<lambda>r. \<forall>n. \<not> creating n r) t u \<Longrightarrow>
    (\<And>n. present t n \<Longrightarrow> present u n) \<Longrightarrow> registry_run opn present creating s u"

definition created_count :: "(request \<Rightarrow> bool) \<Rightarrow> 'w sys \<Rightarrow> nat" where
  "created_count P s = length (filter P (calls s))"

locale create_once =
  fixes opn :: "'k \<Rightarrow> ('w sys, docker_test_error, 'a) action"
    and key :: "'k \<Rightarrow> string"
    and present :: "'w sys \<Rightarrow> string \<Rightarrow> bool"
    and creating :: "string \<Rightarrow> request \<Rightarrow> bool"
  assumes opn_keeps: "opn k s = (r, s') \<Longrightarrow> present s n \<Longrightarrow> present s' n"
    and opn_hit: "opn k s = (r, s') \<Longrightarrow> present s n \<or> n \<noteq> key k \<Longrightarrow>
      \<exists>rs. calls s' = calls s @ rs \<and> filter (creating n) rs = []"
    and opn_miss: "opn k s = (r, s') \<Longrightarrow>
      \<exists>rs. calls s' = calls s @ rs \<and> length (filter (creating (key k)) rs) \<le> 1
        \<and> (filter (creating (key k)) rs \<noteq> [] \<longrightarrow> (\<forall>p. r \<noteq> Panic p) \<longrightarrow> present s' (key k))"
begin

lemma run_created:
  assumes "registry_run opn present creating s u"
  shows "(present s n \<longrightarrow> present u n)
    \<and> (created_count (creating n) u = created_count (creating n) s
       \<or> created_count (creating n) u = Suc (created_count (creating n) s)
         \<and> \<not> present s n \<and> present u n)"
  using assms
proof induction
  case start
  then show ?case by simp
next
  case (call t k r u)
  show ?case
  proof (cases "present t n \<or> n \<noteq> key k")
    case True
    then have "created_count (creating n) u = created_count (creating n) t"
      using opn_hit [OF call.hyps(2), of n] by (auto simp: created_count_def)
    with call show ?thesis using opn_keeps [OF call.hyps(2), of n] by auto
  next
    case False
    with opn_miss [OF call.hyps(2)] call.hyps(3) obtain rs where
      "calls u = calls t @ rs" "length (filter (creating n) rs) \<le> 1"
      "filter (creating n) rs \<noteq> [] \<longrightarrow> present u n"
      by auto
    with False call.IH show ?thesis
      by (cases "filter (creating n) rs") (auto simp: created_count_def)
  qed
next
  case (other t u)
  then have "created_count (creating n) u = created_count (creating n) t"
    by (auto simp: created_count_def extends_def list_all_iff)
  with other show ?case by auto
qed

lemma at_most_once:
  "registry_run opn present creating s u \<Longrightarrow>
   created_count (creating n) u \<le> created_count (creating n) s + (if present s n then 0 else 1)"
  using run_created [of s u n] by auto

end

section \<open>Facts on the creation of containers\<close>

lemma creates_container_inner:
  "adds (creates n) (if n = container_name c then 1 else 0) (create_container_inner d c network)"
proof (cases "n = container_name c")
  case True
  have "adds (creates n) (0 + (0 + (Suc 0 + 0))) (create_container_inner d c network)"
    unfolding create_container_inner_phases
  proof (intro adds_bind)
    show "adds (creates n) 0 (creation_prefix d c)"
      unfolding creation_prefix_def
      by (intro adds_none issues_rules issues_remove_if_exists)
         (auto simp: creates_def intro: issues_rules split: docker_test_error.split)
    show "adds (creates n) 0 (retrieved_id (comp_image c))"
      by (intro adds_none issues_retrieved_id)
    show "adds (creates n) (Suc 0 + 0)
        (if i = [] then failR missing_image_id else creation_request d c network i)" for i
    proof (cases "i = []")
      case True
      then show ?thesis by (simp add: adds_def ret_defs)
    next
      case False
      have "adds (creates n) (Suc 0 + 0) (creation_request d c network i)"
        unfolding creation_request_def
        by (intro adds_bind adds_map_err adds_issue) (simp add: adds_def ret_defs)
      with False show ?thesis by simp
    qed
  qed
  with True show ?thesis by simp
next
  case False
  then show ?thesis
    by (auto intro!: adds_none issues_create_container_inner simp: creates_def)
qed

end
