(* ===== verification/Waiting.thy ===== *)
theory Waiting
  imports Docker_Containers
begin

text \<open>
  \<open>src/waitfor/\<close> and the start of a container in \<open>src/docker/container.rs\<close>: the readiness
  conditions, the contract of the trait \<open>WaitFor\<close> as a locale, and its interpretations on the
  implementations of the library.
\<close>

section \<open>Status polling (src/waitfor/status.rs)\<close>

text \<open>
  The polling loop. \<open>num_checks < max_checks\<close> bounds the counter, so its increment does not wrap.
  \<open>interval.tick()\<close> lets the world move on; a period of zero makes \<open>tokio::time::interval\<close> panic.
\<close>

function poll_loop ::
  "'w bollard \<Rightarrow> string \<Rightarrow> 64 word \<Rightarrow> 64 word \<Rightarrow> (container_state \<Rightarrow> bool) \<Rightarrow> 64 word \<Rightarrow> bool
   \<Rightarrow> ('w sys, docker_test_error, bool) action" where
  "poll_loop d n check_interval max_checks compare num_checks started =
     (if max_checks \<le> num_checks then returnR started
      else matchR (matchR (get_container_state d n)
                     (\<lambda>c. returnR (compare c)) (\<lambda>_. returnR False)) (\<lambda>started'.
             if started' then returnR started'
             else bindR (in_world (\<lambda>w. ((), tick d check_interval num_checks w))) (\<lambda>_.
               poll_loop d n check_interval max_checks compare (num_checks + 1) started'))
           failR)"
  by pat_completeness auto
termination
proof (relation "measure (\<lambda>(d, n, i, m, c, k, b). unat m - unat k)", simp_all)
  fix m k :: "64 word"
  assume "\<not> m \<le> k"
  then have "unat k < unat m" by (simp add: word_le_nat_alt)
  moreover have "1 + k \<noteq> 0"
    using \<open>\<not> m \<le> k\<close> by (metis add.commute add_eq_0_iff word_n1_ge)
  then have "unat (k + 1) = Suc (unat k)" by (simp add: unatSuc add.commute)
  ultimately show "unat m - unat (k + 1) < unat m - unat k" by simp
qed

declare poll_loop.simps [simp del]

definition wait_for_container_state ::
  "'w bollard \<Rightarrow> pending_container \<Rightarrow> 64 word \<Rightarrow> 64 word \<Rightarrow> (container_state \<Rightarrow> bool)
   \<Rightarrow> ('w sys, docker_test_error, operational_container) action" where
  "wait_for_container_state d p check_interval max_checks compare =
     (if check_interval = 0 then panicR ''`period` must be non-zero.''
      else bindR (poll_loop d (pend_name p) check_interval max_checks compare 0 False) (\<lambda>started.
        if started then operational_from p
        else failR (Startup ''status waitfor is not triggered'')))"

section \<open>Log messages (src/waitfor/message.rs)\<close>

text \<open>
  Following the stream up to the deadline (in milliseconds): the message was seen, the stream ended
  (or failed) before, or the time was up. An entry that is not UTF-8 makes \<open>from_utf8\<close> panic.
\<close>

datatype follow_result = Seen | Ended | TimedOut | BadUtf8

fun follow_stream ::
  "nat \<Rightarrow> string \<Rightarrow> nat option \<Rightarrow> (nat \<times> (docker_test_error + log_entry)) list \<Rightarrow> follow_result" where
  "follow_stream deadline msg closed [] =
     (case closed of None \<Rightarrow> TimedOut | Some t \<Rightarrow> if t \<le> deadline then Ended else TimedOut)"
| "follow_stream deadline msg closed ((t, entry) # rest) =
     (if deadline < t then TimedOut
      else case entry of
             Inl _ \<Rightarrow> Ended
           | Inr e \<Rightarrow>
               if \<not> utf8_valid (le_message e) then BadUtf8
               else if contains_sub (le_message e) msg then Seen
               else follow_stream deadline msg closed rest)"

definition wait_for_message ::
  "'w bollard \<Rightarrow> string \<Rightarrow> string \<Rightarrow> message_source \<Rightarrow> string \<Rightarrow> 16 word
   \<Rightarrow> ('w sys, docker_test_error, unit) action" where
  "wait_for_message d cid h src msg timeout_secs =
     bindR (container_logs d cid ((container_log_source_from src)\<lparr>log_follow := True\<rparr>)) (\<lambda>stream.
     case follow_stream (unat timeout_secs * 1000) msg (es_closed stream) (es_items stream) of
       Seen \<Rightarrow> returnR ()
     | Ended \<Rightarrow> failR (Startup (''container `'' @ h
         @ ''` ended log stream (terminated) before waitfor message triggered: `'' @ msg @ ''`''))
     | TimedOut \<Rightarrow> failR (Startup ''awaiting container message timed out'')
     | BadUtf8 \<Rightarrow> panicR ''called `Result::unwrap()` on an `Err` value'')"

definition pending_container_wait_for_message ::
  "'w bollard \<Rightarrow> pending_container \<Rightarrow> message_source \<Rightarrow> string \<Rightarrow> 16 word
   \<Rightarrow> ('w sys, docker_test_error, operational_container) action" where
  "pending_container_wait_for_message d p src msg timeout_secs =
     matchR (wait_for_message d (pend_id p) (pend_handle p) src msg timeout_secs)
       (\<lambda>_. operational_from p) failR"

section \<open>The trait and the start of a container\<close>

definition NoWait_wait_for_ready ::
  "pending_container \<Rightarrow> ('w sys, docker_test_error, operational_container) action" where
  "NoWait_wait_for_ready container = operational_from container"

definition RunningWait_wait_for_ready ::
  "'w bollard \<Rightarrow> 64 word \<Rightarrow> 64 word \<Rightarrow> pending_container
   \<Rightarrow> ('w sys, docker_test_error, operational_container) action" where
  "RunningWait_wait_for_ready d check_interval max_checks container =
     wait_for_container_state d container check_interval max_checks (\<lambda>st. st = Running)"

definition ExitedWait_wait_for_ready ::
  "'w bollard \<Rightarrow> 64 word \<Rightarrow> 64 word \<Rightarrow> pending_container
   \<Rightarrow> ('w sys, docker_test_error, operational_container) action" where
  "ExitedWait_wait_for_ready d check_interval max_checks container =
     wait_for_container_state d container check_interval max_checks (\<lambda>st. st = Exited)"

definition MessageWait_wait_for_ready ::
  "'w bollard \<Rightarrow> string \<Rightarrow> message_source \<Rightarrow> 16 word \<Rightarrow> pending_container
   \<Rightarrow> ('w sys, docker_test_error, operational_container) action" where
  "MessageWait_wait_for_ready d message src timeout_secs container =
     pending_container_wait_for_message d container src message timeout_secs"

text \<open>The call through the trait object.\<close>

definition wait_for_ready ::
  "'w bollard \<Rightarrow> wait_for \<Rightarrow> pending_container
   \<Rightarrow> ('w sys, docker_test_error, operational_container) action" where
  "wait_for_ready d w =
     (case w of
        NoWait \<Rightarrow> NoWait_wait_for_ready
      | RunningWait i m \<Rightarrow> RunningWait_wait_for_ready d i m
      | ExitedWait i m \<Rightarrow> ExitedWait_wait_for_ready d i m
      | MessageWait msg src t \<Rightarrow> MessageWait_wait_for_ready d msg src t
      | CustomWait i \<Rightarrow> custom_wait d i)"

lemmas wait_for_ready_defs = wait_for_ready_def NoWait_wait_for_ready_def RunningWait_wait_for_ready_def
  ExitedWait_wait_for_ready_def MessageWait_wait_for_ready_def

definition start_error ::
  "'w bollard \<Rightarrow> b_error \<Rightarrow> ('w sys, docker_test_error, 'a) action" where
  "start_error d e =
     (case e of
        DockerResponseServerError status_code msg \<Rightarrow>
          if status_code = 404 then
            (case json_message d msg of
               Inr (Some text) \<Rightarrow>
                 failR (Startup (''failed to start container due to `'' @ text @ ''`''))
             | Inr None \<Rightarrow> unwrap_none
             | Inl err \<Rightarrow> failR (Daemon (''daemon json response decode failure: '' @ err)))
          else failR (Daemon (''failed to start container: '' @ msg))
      | OtherError _ \<Rightarrow> failR (Daemon (''failed to start container: '' @ b_display d e)))"

definition start_container_inner ::
  "'w bollard \<Rightarrow> pending_container \<Rightarrow> ('w sys, docker_test_error, operational_container) action" where
  "start_container_inner d p =
     matchR (issue (StartContainer (pend_name p)) (b_start_container d (pend_name p)))
       (\<lambda>_. case pend_wait p of
              None \<Rightarrow> unwrap_none
            | Some w \<Rightarrow> wait_for_ready d w (p\<lparr>pend_wait := None\<rparr>))
       (start_error d)"

section \<open>The contract of \<open>WaitFor\<close>\<close>

text \<open>
  What \<open>start_container_inner\<close> and everything above it relies on: a readiness condition hands back
  the container it was given, only observes the daemon, leaves the registries alone and only
  allocates state cells.
\<close>

definition observing :: "request \<Rightarrow> bool" where
  "observing r \<longleftrightarrow> (case r of InspectContainer _ \<Rightarrow> True | ContainerLogs _ _ _ _ \<Rightarrow> True | _ \<Rightarrow> False)"

lemma observing_simps [simp]:
  "observing (InspectContainer n)" "observing (ContainerLogs a b c e)"
  "\<not> observing (StartContainer n)" "\<not> observing (CreateContainer n cb)"
  "\<not> observing (StopContainer n)" "\<not> observing (RemoveContainer n b c)"
  by (simp_all add: observing_def)

definition same_container :: "pending_container \<Rightarrow> operational_container \<Rightarrow> bool" where
  "same_container p r \<longleftrightarrow>
     oper_id r = pend_id p \<and> oper_name r = pend_name p \<and> oper_handle r = pend_handle p
     \<and> oper_is_static r = pend_is_static p \<and> oper_log_options r = pend_log_options p"

definition registries :: "'w sys \<Rightarrow> (string \<times> internal_container) list
  \<times> (string \<times> operational_container) list \<times> (string \<times> dynamic_status) list
  \<times> (string \<times> network_creation) list \<times> string list" where
  "registries s = (internals s, externals s, dynamics s, singular s, id_cells s)"

lemma registries_update [simp]:
  "registries (s\<lparr>world := w, calls := c\<rparr>) = registries s"
  "registries (s\<lparr>world := w\<rparr>) = registries s"
  "registries (s\<lparr>state_cells := x\<rparr>) = registries s"
  by (simp_all add: registries_def)

locale wait_for_trait =
  fixes ready :: "pending_container \<Rightarrow> ('w sys, docker_test_error, operational_container) action"
  assumes ready_same: "ready p s = (Ok r, s') \<Longrightarrow> same_container p r"
    and ready_observes: "issues observing (ready p)"
    and ready_frame: "within (same registries) (ready p)"
begin

text \<open>Starting a container and waiting for it, over any implementation of the trait.\<close>

lemma start_then_ready:
  fixes f :: "'w \<Rightarrow> (b_error + unit) \<times> 'w"
  assumes "matchR (issue (StartContainer n) f) (\<lambda>_. ready p) err s = (Ok r, s')"
    and "\<And>e t x t'. err e t \<noteq> (Ok x, t')"
  shows "same_container p r \<and> registries s' = registries s
    \<and> (\<exists>rs. calls s' = calls s @ StartContainer n # rs \<and> list_all observing rs)"
  using assms(1)
proof (cases rule: matchR_cases)
  case (1 a s1)
  have s1: "calls s1 = calls s @ [StartContainer n]" "registries s1 = registries s"
    using 1(1) by (auto elim!: issue_cases)
  have "registries s' = registries s1"
    using ready_frame 1(2) by (rule within_same)
  moreover have "extends observing s1 s'"
    using ready_observes 1(2) by (rule withinD)
  ultimately show ?thesis
    using s1 ready_same [OF 1(2)] by (auto simp: extends_def)
next
  case (2 e s1)
  with assms(2) show ?thesis by blast
qed simp

end

section \<open>The library's implementations keep the contract\<close>

lemma operational_from_trait: "wait_for_trait operational_from"
proof unfold_locales
  show "operational_from p s = (Ok r, s') \<Longrightarrow> same_container p r" for p s r s'
    by (auto simp: operational_from_eq same_container_def)
  show "issues observing (operational_from p)" for p
    unfolding operational_from_def by (intro issues_rules)
  show "within (same registries) (operational_from p)" for p
    unfolding operational_from_def by (intro same_rules) simp
qed

interpretation nowait: wait_for_trait NoWait_wait_for_ready
  unfolding NoWait_wait_for_ready_def [abs_def] by (rule operational_from_trait)

lemmas operational_ready = nowait.ready_same [unfolded NoWait_wait_for_ready_def]
  nowait.ready_observes [unfolded NoWait_wait_for_ready_def] nowait.ready_frame [unfolded NoWait_wait_for_ready_def]

lemma issues_poll_loop: "issues observing (poll_loop d n i m cmp k b)"
proof (induction d n i m cmp k b rule: poll_loop.induct)
  case (1 d n i m cmp k b)
  then show ?case
    by (subst poll_loop.simps) (intro issues_rules issues_get_container_state; simp)
qed

lemma same_poll_loop: "within (same registries) (poll_loop d n i m cmp k b)"
proof (induction d n i m cmp k b rule: poll_loop.induct)
  case (1 d n i m cmp k b)
  then show ?case
    by (subst poll_loop.simps) (intro same_rules same_get_container_state; simp)
qed

interpretation status: wait_for_trait "\<lambda>p. wait_for_container_state d p i m cmp" for d i m cmp
proof unfold_locales
  show "wait_for_container_state d p i m cmp s = (Ok r, s') \<Longrightarrow> same_container p r" for p s r s'
    unfolding wait_for_container_state_def
    by (auto elim!: bindR_Ok dest: operational_ready(1) simp: ret_defs split: if_splits)
  show "issues observing (wait_for_container_state d p i m cmp)" for p
    unfolding wait_for_container_state_def
    by (intro issues_rules issues_poll_loop operational_ready(2))
  show "within (same registries) (wait_for_container_state d p i m cmp)" for p
    unfolding wait_for_container_state_def
    by (intro same_rules same_poll_loop operational_ready(3))
qed

lemma issues_wait_for_message:
  "(\<And>a b. R (ContainerLogs cid True a b)) \<Longrightarrow> issues R (wait_for_message d cid h src msg t)"
  unfolding wait_for_message_def
  by (intro issues_rules issues_container_logs) (auto intro: issues_rules split: follow_result.split)

lemma same_wait_for_message:
  "(\<And>s w c. g (s\<lparr>world := w, calls := c\<rparr>) = g s) \<Longrightarrow>
   within (same g) (wait_for_message d cid h src msg t)"
  unfolding wait_for_message_def
  by (intro same_rules same_container_logs) (auto intro: same_rules split: follow_result.split)

interpretation msg: wait_for_trait "\<lambda>p. pending_container_wait_for_message d p src m t" for d src m t
proof unfold_locales
  show "pending_container_wait_for_message d p src m t s = (Ok r, s') \<Longrightarrow> same_container p r"
    for p s r s'
    unfolding pending_container_wait_for_message_def
    by (elim matchR_cases) (auto dest: operational_ready(1) simp: ret_defs)
  show "issues observing (pending_container_wait_for_message d p src m t)" for p
    unfolding pending_container_wait_for_message_def
    by (intro issues_rules issues_wait_for_message operational_ready(2)) simp
  show "within (same registries) (pending_container_wait_for_message d p src m t)" for p
    unfolding pending_container_wait_for_message_def
    by (intro same_rules same_wait_for_message operational_ready(3)) simp
qed

text \<open>
  A user's own implementations are asked to keep the same contract; with that, every wait does.
\<close>

definition lawful_waits :: "'w bollard \<Rightarrow> bool" where
  "lawful_waits d \<longleftrightarrow> (\<forall>i. wait_for_trait (custom_wait d i))"

lemma wait_for_ready_trait: "lawful_waits d \<Longrightarrow> wait_for_trait (wait_for_ready d w)"
  by (cases w)
     (simp_all add: wait_for_ready_defs [abs_def] lawful_waits_def nowait.wait_for_trait_axioms
        operational_from_trait status.wait_for_trait_axioms msg.wait_for_trait_axioms)

lemma same_container_wait [simp]: "same_container (p\<lparr>pend_wait := w\<rparr>) r = same_container p r"
  by (simp add: same_container_def)

lemma start_error_not_Ok [simp]: "start_error d e t \<noteq> (Ok x, t')"
  by (simp add: start_error_def unwrap_none_def ret_defs split: b_error.split sum.split option.split)

lemma start_container_inner_Ok:
  assumes "lawful_waits d" and "start_container_inner d p s = (Ok r, s')"
  shows "same_container p r \<and> registries s' = registries s
    \<and> (\<exists>rs. calls s' = calls s @ StartContainer (pend_name p) # rs \<and> list_all observing rs)"
proof (cases "pend_wait p")
  case None
  then have False
    using assms(2) unfolding start_container_inner_def
    by (elim matchR_cases) (auto simp: unwrap_none_def ret_defs)
  then show ?thesis ..
next
  case (Some w)
  then show ?thesis
    using wait_for_trait.start_then_ready [OF wait_for_ready_trait [OF assms(1)],
        of "pend_name p" "b_start_container d (pend_name p)" w "p\<lparr>pend_wait := None\<rparr>"
        "start_error d" s r s'] assms(2)
    by (simp add: start_container_inner_def)
qed

lemma start_error_effects: "(\<And>s. rel s s) \<Longrightarrow> within rel (start_error d e)"
  by (auto simp: start_error_def within_def unwrap_none_def ret_defs split: b_error.split sum.split option.split)

lemma same_start_container_inner:
  assumes "lawful_waits d"
  shows "within (same registries) (start_container_inner d p)"
proof -
  have "within (same registries) (wait_for_ready d w q)" for w q
    using wait_for_ready_trait [OF assms] by (rule wait_for_trait.ready_frame)
  then show ?thesis
    unfolding start_container_inner_def unwrap_none_def
    by (intro same_rules start_error_effects) (auto simp: same_def)
qed

lemma issues_start_container_inner:
  assumes "lawful_waits d" and "\<And>r. observing r \<Longrightarrow> R r" and "R (StartContainer (pend_name p))"
  shows "issues R (start_container_inner d p)"
proof -
  have "issues R (wait_for_ready d w q)" for w q
    using wait_for_trait.ready_observes [OF wait_for_ready_trait [OF assms(1)]] assms(2)
    by (rule issues_mono)
  then show ?thesis
    unfolding start_container_inner_def unwrap_none_def
    by (intro issues_rules start_error_effects assms(3)) (auto simp: extends_def)
qed

end
