(* ===== verification/Operations.thy ===== *)
theory Operations
  imports Waiting
begin

text \<open>
  The operations a test body performs on a container (\<open>src/container/operational.rs\<close>): pausing,
  unpausing and killing it under the assumed state, and awaiting a log message; with the state
  machine of the assumed states as a step relation.
\<close>

section \<open>Operations\<close>

text \<open>\<open>result.unwrap()\<close>: an error becomes a panic with the error's text.\<close>

definition unwrap_action :: "('s, 'e, 'a) action \<Rightarrow> ('s, 'f, 'a) action" where
  "unwrap_action m = matchR m returnR
     (\<lambda>_. panicR ''called `Result::unwrap()` on an `Err` value'')"

definition goto_state ::
  "operational_container \<Rightarrow> container_state \<Rightarrow> container_state list
   \<Rightarrow> ('w sys, docker_test_error, unit) action" where
  "goto_state c dest allowed = bindR (read_cell state_cells (oper_assumed_state c)) (\<lambda>state.
     if state \<notin> set allowed then failR (ContainerState state dest)
     else modify (\<lambda>s. s\<lparr>state_cells := (state_cells s)[oper_assumed_state c := dest]\<rparr>))"

definition pause :: "'w bollard \<Rightarrow> operational_container \<Rightarrow> ('w sys, 'e, unit) action" where
  "pause d c = bindR (unwrap_action (goto_state c Paused [Running]))
     (\<lambda>_. unwrap_action (docker_pause d (oper_name c)))"

definition kill :: "'w bollard \<Rightarrow> operational_container \<Rightarrow> ('w sys, 'e, unit) action" where
  "kill d c = bindR (unwrap_action (goto_state c Exited [Running, Paused]))
     (\<lambda>_. unwrap_action (docker_kill d (oper_name c)))"

definition unpause :: "'w bollard \<Rightarrow> operational_container \<Rightarrow> ('w sys, 'e, unit) action" where
  "unpause d c = bindR (unwrap_action (goto_state c Running [Paused]))
     (\<lambda>_. unwrap_action (docker_unpause d (oper_name c)))"

definition assert_message ::
  "'w bollard \<Rightarrow> operational_container \<Rightarrow> string \<Rightarrow> message_source \<Rightarrow> 16 word
   \<Rightarrow> ('w sys, 'e, unit) action" where
  "assert_message d c message src timeout =
     matchR (wait_for_message d (oper_id c) (oper_handle c) src message timeout)
       returnR (\<lambda>e. panicR (display_error e))"

section \<open>The assumed states as a step relation\<close>

text \<open>
  One operation of a test body on a container with a valid cell; it either finishes or panics, and
  the container's assumed state is what later operations see in both cases.
\<close>

datatype body_operation = Pause | Kill | Unpause

fun perform :: "'w bollard \<Rightarrow> operational_container \<Rightarrow> body_operation \<Rightarrow> ('w sys, unit, unit) action" where
  "perform d c Pause = pause d c"
| "perform d c Kill = kill d c"
| "perform d c Unpause = unpause d c"

text \<open>The specification: the states an operation is enabled in, and where it leads.\<close>

fun enabled_in :: "body_operation \<Rightarrow> container_state list" where
  "enabled_in Pause = [Running]"
| "enabled_in Kill = [Running, Paused]"
| "enabled_in Unpause = [Paused]"

fun leads_to :: "body_operation \<Rightarrow> container_state" where
  "leads_to Pause = Paused"
| "leads_to Kill = Exited"
| "leads_to Unpause = Running"

fun operation_request :: "body_operation \<Rightarrow> operational_container \<Rightarrow> request" where
  "operation_request Pause c = PauseContainer (oper_name c)"
| "operation_request Kill c = KillContainer (oper_name c) ''SIGKILL''"
| "operation_request Unpause c = UnpauseContainer (oper_name c)"

inductive body_step :: "'w bollard \<Rightarrow> operational_container \<Rightarrow> 'w sys \<Rightarrow> 'w sys \<Rightarrow> bool"
  for d c where
  "perform d c opn s = (Ok (), s') \<Longrightarrow> body_step d c s s'"

inductive_cases body_stepE: "body_step d c s s'"

inductive body_reachable :: "'w bollard \<Rightarrow> operational_container \<Rightarrow> 'w sys \<Rightarrow> 'w sys \<Rightarrow> bool"
  for d c s where
  start: "body_reachable d c s s"
| step: "body_reachable d c s t \<Longrightarrow> body_step d c t u \<Longrightarrow> body_reachable d c s u"

definition assumed :: "operational_container \<Rightarrow> 'w sys \<Rightarrow> container_state" where
  "assumed c s = state_cells s ! oper_assumed_state c"

definition live_cell :: "operational_container \<Rightarrow> 'w sys \<Rightarrow> bool" where
  "live_cell c s \<longleftrightarrow> oper_assumed_state c < length (state_cells s)"

section \<open>Facts\<close>

lemma goto_state_eq:
  assumes "live_cell c s"
  shows "goto_state c dest allowed s =
    (if assumed c s \<in> set allowed
     then (Ok (), s\<lparr>state_cells := (state_cells s)[oper_assumed_state c := dest]\<rparr>)
     else (Err (ContainerState (assumed c s) dest), s))"
  using assms
  by (simp add: goto_state_def assumed_def live_cell_def ret_defs modify_def)

text \<open>
  Every operation is the same shape: refused before anything is sent when not enabled, otherwise the
  assumed state moves first and then exactly one request goes out.
\<close>

lemma guarded_operation:
  fixes dest :: container_state and allowed :: "container_state list"
  assumes "live_cell c s"
    and m: "\<And>t. calls (snd (m t)) = calls t @ [r]" "within (same state_cells) m"
  defines "act \<equiv> bindR (unwrap_action (goto_state c dest allowed)) (\<lambda>_. unwrap_action m)"
  shows "assumed c s \<notin> set allowed \<Longrightarrow>
      act s = (Panic ''called `Result::unwrap()` on an `Err` value'', s)"
    and "assumed c s \<in> set allowed \<Longrightarrow>
      calls (snd (act s)) = calls s @ [r]
      \<and> state_cells (snd (act s)) = (state_cells s)[oper_assumed_state c := dest]"
proof -
  show "assumed c s \<notin> set allowed \<Longrightarrow>
      act s = (Panic ''called `Result::unwrap()` on an `Err` value'', s)"
    using assms(1) by (simp add: act_def unwrap_action_def goto_state_eq ret_defs)
  let ?t = "s\<lparr>state_cells := (state_cells s)[oper_assumed_state c := dest]\<rparr>"
  assume "assumed c s \<in> set allowed"
  then have "act s = unwrap_action m ?t"
    using assms(1) by (simp add: act_def unwrap_action_def goto_state_eq ret_defs)
  moreover obtain x u where "m ?t = (x, u)" by (cases "m ?t")
  moreover from this have "calls u = calls s @ [r]" "state_cells u = state_cells ?t"
    using m(1) [of ?t] within_same [OF m(2)] by auto
  ultimately show "calls (snd (act s)) = calls s @ [r]
      \<and> state_cells (snd (act s)) = (state_cells s)[oper_assumed_state c := dest]"
    by (cases x) (simp_all add: unwrap_action_def ret_defs)
qed

lemma map_err_calls: "calls (snd (map_err g (issue r f) s)) = calls s @ [r]"
proof -
  obtain x s' where i: "issue r f s = (x, s')" by (cases "issue r f s")
  then have "calls s' = calls s @ [r]" by (auto elim: issue_cases)
  with i show ?thesis by (cases x) (simp_all add: map_err_def ret_defs)
qed

lemma same_docker_operations:
  "within (same state_cells) (docker_pause d n)"
  "within (same state_cells) (docker_kill d n)"
  "within (same state_cells) (docker_unpause d n)"
  unfolding docker_pause_def docker_kill_def docker_unpause_def
  by (intro same_rules; simp)+

lemma docker_operation_calls:
  "calls (snd (docker_pause d n s)) = calls s @ [PauseContainer n]"
  "calls (snd (docker_kill d n s)) = calls s @ [KillContainer n ''SIGKILL'']"
  "calls (snd (docker_unpause d n s)) = calls s @ [UnpauseContainer n]"
  by (simp_all add: docker_pause_def docker_kill_def docker_unpause_def map_err_calls)

lemma perform_refused:
  "live_cell c s \<Longrightarrow> assumed c s \<notin> set (enabled_in opn) \<Longrightarrow>
   perform d c opn s = (Panic ''called `Result::unwrap()` on an `Err` value'', s)"
  by (cases opn)
     (simp_all add: pause_def kill_def unpause_def
        guarded_operation(1) [OF _ docker_operation_calls(1) same_docker_operations(1)]
        guarded_operation(1) [OF _ docker_operation_calls(2) same_docker_operations(2)]
        guarded_operation(1) [OF _ docker_operation_calls(3) same_docker_operations(3)])

lemma perform_enabled:
  assumes "live_cell c s" and "assumed c s \<in> set (enabled_in opn)"
  shows "calls (snd (perform d c opn s)) = calls s @ [operation_request opn c]
    \<and> state_cells (snd (perform d c opn s))
        = (state_cells s)[oper_assumed_state c := leads_to opn]"
  using assms
  by (cases opn)
     (simp_all add: pause_def kill_def unpause_def
        guarded_operation(2) [OF _ docker_operation_calls(1) same_docker_operations(1)]
        guarded_operation(2) [OF _ docker_operation_calls(2) same_docker_operations(2)]
        guarded_operation(2) [OF _ docker_operation_calls(3) same_docker_operations(3)])

lemma body_step_effect:
  assumes "body_step d c s s'" and "live_cell c s"
  obtains opn where "assumed c s \<in> set (enabled_in opn)" "assumed c s' = leads_to opn"
    "live_cell c s'" "calls s' = calls s @ [operation_request opn c]"
proof -
  obtain opn where p: "perform d c opn s = (Ok (), s')"
    using assms(1) by (rule body_stepE)
  then have e: "assumed c s \<in> set (enabled_in opn)"
    using perform_refused [OF assms(2), of opn d] by auto
  then show ?thesis
    using that [of opn] perform_enabled [OF assms(2) e, of d] p assms(2)
    by (simp add: assumed_def live_cell_def)
qed

text \<open>
  A test body's conversation with the daemon about one container that started running: pauses and
  unpauses alternate, and a kill, if any, comes last.
\<close>

definition pause_cycles :: "operational_container \<Rightarrow> nat \<Rightarrow> request list" where
  "pause_cycles c n = concat (replicate n [PauseContainer (oper_name c), UnpauseContainer (oper_name c)])"

definition conversation :: "operational_container \<Rightarrow> container_state \<Rightarrow> request list \<Rightarrow> bool" where
  "conversation c st rs \<longleftrightarrow> (\<exists>n.
     st = Running \<and> rs = pause_cycles c n
   \<or> st = Paused \<and> rs = pause_cycles c n @ [PauseContainer (oper_name c)]
   \<or> st = Exited \<and> (rs = pause_cycles c n @ [KillContainer (oper_name c) ''SIGKILL'']
       \<or> rs = pause_cycles c n @ [PauseContainer (oper_name c), KillContainer (oper_name c) ''SIGKILL'']))"

lemma pause_cycles_snoc:
  "pause_cycles c n @ [PauseContainer (oper_name c), UnpauseContainer (oper_name c)]
   = pause_cycles c (Suc n)"
  by (induction n) (simp_all add: pause_cycles_def)

lemma conversation_step:
  assumes "conversation c st rs" and "st \<in> set (enabled_in opn)"
  shows "conversation c (leads_to opn) (rs @ [operation_request opn c])"
  using assms
  by (cases opn) (auto simp: conversation_def pause_cycles_snoc)

section \<open>Properties\<close>

text \<open>
  C30: pausing, unpausing and killing a container follow its assumed state. An operation that is not
  enabled in that state panics with the daemon not contacted and nothing changed; an enabled one
  moves the assumed state first and then sends exactly its own request, whatever the daemon answers.
\<close>

theorem operations_guarded:
  assumes "live_cell c s"
  shows "(assumed c s \<notin> set (enabled_in opn) \<longrightarrow>
        perform d c opn s = (Panic ''called `Result::unwrap()` on an `Err` value'', s))
    \<and> calls (snd (perform d c opn s)) =
        calls s @ (if assumed c s \<in> set (enabled_in opn) then [operation_request opn c] else [])
    \<and> assumed c (snd (perform d c opn s)) =
        (if assumed c s \<in> set (enabled_in opn) then leads_to opn else assumed c s)"
  using assms perform_refused [OF assms, of opn d] perform_enabled [OF assms, of opn d]
  by (auto simp: assumed_def live_cell_def)

text \<open>
  C25: over every sequence of successful operations on a container that was running, the requests
  sent are alternating pauses and unpauses followed by at most one kill, and the assumed state
  records exactly how far the sequence got; after the kill nothing more is sent.
\<close>

theorem body_conversation:
  assumes "body_reachable d c s t" and "live_cell c s" and "assumed c s = Running"
  shows "\<exists>rs. calls t = calls s @ rs \<and> conversation c (assumed c t) rs"
proof -
  from assms have "live_cell c t \<and> (\<exists>rs. calls t = calls s @ rs \<and> conversation c (assumed c t) rs)"
  proof induction
    case start
    then show ?case by (auto simp: conversation_def pause_cycles_def intro: exI [of _ 0])
  next
    case (step t u)
    then obtain rs where rs: "live_cell c t" "calls t = calls s @ rs" "conversation c (assumed c t) rs"
      by blast
    with step.hyps(2) show ?case
      by (elim body_step_effect) (use conversation_step [OF rs(3)] in auto)
  qed
  then show ?thesis by blast
qed

end
