(* ===== verification/Internal_Containers.thy ===== *)
theory Internal_Containers
  imports Registry Operations
begin

text \<open>
  \<open>src/static_container/internal.rs\<close>: the containers shared by the tests of a binary, created and
  started by the first test that needs them and removed by the last that is done with them.

  Each operation runs under the write lock of the map (the disconnecting under the read lock), so it
  is one atomic action; \<open>cleanup\<close> is three: disconnecting, decrementing and removing. The map's
  iteration order is the order of the association list. The arithmetic of the counter is checked, as
  in the test profile: leaving the range of \<open>u8\<close> is a panic.
\<close>

section \<open>Operations\<close>

fun container_id :: "internal_status \<Rightarrow> string option" where
  "container_id (IOperational _ r) = Some (pend_id r)"
| "container_id (IPending p) = Some (pend_id p)"
| "container_id (IFailed _ cid) = cid"
| "container_id ICleaned = None"

definition insert_internal :: "string \<Rightarrow> internal_container \<Rightarrow> ('w sys, 'e, unit) action" where
  "insert_internal n c = modify (\<lambda>s. s\<lparr>internals := AList.update n c (internals s)\<rparr>)"

definition set_internal_status :: "string \<Rightarrow> internal_status \<Rightarrow> ('w sys, 'e, unit) action" where
  "set_internal_status n st =
     modify (\<lambda>s. s\<lparr>internals := AList.map_entry n (\<lambda>c. c\<lparr>int_status := st\<rparr>) (internals s)\<rparr>)"

text \<open>\<open>c.completion_counter += 1\<close>\<close>

definition increment_completion :: "string \<Rightarrow> ('w sys, 'e, unit) action" where
  "increment_completion n = reads internals (\<lambda>m. case map_of m n of
     None \<Rightarrow> returnR ()
   | Some c \<Rightarrow>
       if completion_counter c = 255 then panicR ''attempt to add with overflow''
       else insert_internal n (c\<lparr>completion_counter := completion_counter c + 1\<rparr>))"

definition create_internal_container_impl ::
  "'w bollard \<Rightarrow> composition \<Rightarrow> string option \<Rightarrow> ('w sys, docker_test_error, pending_container) action" where
  "create_internal_container_impl d c network =
     matchR (create_container_inner d c network)
       (\<lambda>p. bindR (insert_internal (container_name c)
                      \<lparr>int_status = IPending p, completion_counter = 1\<rparr>) (\<lambda>_. returnR p))
       (\<lambda>e. bindR (insert_internal (container_name c)
                      \<lparr>int_status = IFailed e None, completion_counter = 1\<rparr>) (\<lambda>_. failR e))"

text \<open>The two places where the creator of the container adds it to its network are the same code.\<close>

definition create_first ::
  "'w bollard \<Rightarrow> composition \<Rightarrow> string option \<Rightarrow> ('w sys, docker_test_error, pending_container) action" where
  "create_first d c network =
     bindR (create_internal_container_impl d c network) (\<lambda>container.
     bindR (case network of
              Some n \<Rightarrow> add_container_to_network d (pend_id container) n
            | None \<Rightarrow> returnR ()) (\<lambda>_. returnR container))"

definition join_existing ::
  "'w bollard \<Rightarrow> string \<Rightarrow> pending_container \<Rightarrow> string option \<Rightarrow> network
   \<Rightarrow> ('w sys, docker_test_error, pending_container) action" where
  "join_existing d name p network network_setting =
     bindR (case (network, network_setting) of
              (Some n, Isolated) \<Rightarrow> add_container_to_network d (pend_id p) n
            | _ \<Rightarrow> returnR ()) (\<lambda>_.
     bindR (increment_completion name) (\<lambda>_. returnR p))"

definition create_internal_container_inner ::
  "'w bollard \<Rightarrow> composition \<Rightarrow> string option \<Rightarrow> network
   \<Rightarrow> ('w sys, docker_test_error, pending_container) action" where
  "create_internal_container_inner d c network network_setting =
     reads internals (\<lambda>m. case map_of m (container_name c) of
       Some ic \<Rightarrow>
         (case int_status ic of
            IPending p \<Rightarrow> join_existing d (container_name c) p network network_setting
          | IOperational _ p \<Rightarrow> join_existing d (container_name c) p network network_setting
          | IFailed e _ \<Rightarrow> bindR (increment_completion (container_name c)) (\<lambda>_. failR e)
          | ICleaned \<Rightarrow> create_first d c network)
     | None \<Rightarrow> create_first d c network)"

definition internal_create ::
  "'w bollard \<Rightarrow> composition \<Rightarrow> string option \<Rightarrow> network
   \<Rightarrow> ('w sys, docker_test_error, pending_container) action" where
  "internal_create d c network network_setting =
     bindR (create_internal_container_inner d c network network_setting) returnR"

definition internal_start ::
  "'w bollard \<Rightarrow> pending_container \<Rightarrow> ('w sys, docker_test_error, operational_container) action" where
  "internal_start d container = reads internals (\<lambda>m. case map_of m (pend_name container) of
       Some c \<Rightarrow>
         (case int_status c of
            IFailed e _ \<Rightarrow> failR e
          | IOperational r _ \<Rightarrow> returnR r
          | IPending p \<Rightarrow>
              matchR (start_container_inner d p)
                (\<lambda>r. bindR (set_internal_status (pend_name container) (IOperational r p))
                        (\<lambda>_. returnR r))
                (\<lambda>e. bindR (set_internal_status (pend_name container)
                               (IFailed e (Some (pend_id container)))) (\<lambda>_. failR e))
          | ICleaned \<Rightarrow> failR (Startup ''encountered a cleaned container during startup''))
     | None \<Rightarrow> failR (Startup ''tried to start a non-existing internal container''))"

definition internal_disconnect ::
  "'w bollard \<Rightarrow> string \<Rightarrow> string list \<Rightarrow> ('w sys, docker_test_error, unit) action" where
  "internal_disconnect d network to_cleanup = reads internals (\<lambda>m. forR m (\<lambda>(n, container).
     case int_status container of
       IOperational r _ \<Rightarrow>
         if oper_id r \<in> set to_cleanup then disconnect_container d (oper_id r) network else returnR ()
     | _ \<Rightarrow> returnR ()))"

text \<open>
  The loop over \<open>containers.values_mut()\<close>: the map it leaves, the identifiers whose counter reached
  zero, and whether the subtraction overflowed (the entries before it stay changed).
\<close>

fun decrement_entries ::
  "string list \<Rightarrow> (string \<times> internal_container) list
   \<Rightarrow> (string \<times> internal_container) list \<times> string list \<times> bool" where
  "decrement_entries to_cleanup [] = ([], [], False)"
| "decrement_entries to_cleanup ((n, c) # rest) =
     (case container_id (int_status c) of
        None \<Rightarrow>
          (case decrement_entries to_cleanup rest of (m, rs, p) \<Rightarrow> ((n, c) # m, rs, p))
      | Some cid \<Rightarrow>
          if cid \<in> set to_cleanup then
            (if completion_counter c = 0 then ((n, c) # rest, [], True)
             else case decrement_entries to_cleanup rest of (m, rs, p) \<Rightarrow>
               (if completion_counter c - 1 = 0
                then ((n, \<lparr>int_status = ICleaned, completion_counter = 0\<rparr>) # m, cid # rs, p)
                else ((n, c\<lparr>completion_counter := completion_counter c - 1\<rparr>) # m, rs, p)))
          else case decrement_entries to_cleanup rest of (m, rs, p) \<Rightarrow> ((n, c) # m, rs, p))"

definition decrement_completion_counters :: "string list \<Rightarrow> ('w sys, 'e, string list) action" where
  "decrement_completion_counters to_cleanup = (\<lambda>s.
     case decrement_entries to_cleanup (internals s) of (m, rs, p) \<Rightarrow>
       (if p then Panic ''attempt to subtract with overflow'' else Ok rs, s\<lparr>internals := m\<rparr>))"

definition internal_cleanup ::
  "'w bollard \<Rightarrow> string \<Rightarrow> string list \<Rightarrow> ('w sys, docker_test_error, unit) action" where
  "internal_cleanup d network to_cleanup =
     bindR (internal_disconnect d network to_cleanup) (\<lambda>_.
     bindR (decrement_completion_counters to_cleanup) (\<lambda>to_remove.
     forR to_remove (remove_container d)))"

section \<open>What the operations do to the map\<close>

text \<open>
  The specification of one \<open>create\<close> on the map alone: with whom the counter is shared, and the three
  ways a first creation ends.
\<close>

fun shared_pending :: "internal_status \<Rightarrow> pending_container option" where
  "shared_pending (IOperational _ p) = Some p"
| "shared_pending (IPending p) = Some p"
| "shared_pending (IFailed _ _) = None"
| "shared_pending ICleaned = None"

definition bump :: "internal_container \<Rightarrow> internal_container" where
  "bump c = c\<lparr>completion_counter := completion_counter c + 1\<rparr>"

definition vacant :: "(string \<times> internal_container) list \<Rightarrow> string \<Rightarrow> bool" where
  "vacant m n \<longleftrightarrow> (\<forall>c. map_of m n = Some c \<longrightarrow> int_status c = ICleaned)"

inductive create_effect ::
  "string \<Rightarrow> static_management_policy option \<Rightarrow> (string \<times> internal_container) list
   \<Rightarrow> (docker_test_error, pending_container) result \<Rightarrow> (string \<times> internal_container) list \<Rightarrow> bool"
  for n pol m where
  refused: "(\<And>p. r \<noteq> Ok p) \<Longrightarrow> (\<And>e. r = Err e \<Longrightarrow> \<not> vacant m n) \<Longrightarrow> create_effect n pol m r m"
| joined: "map_of m n = Some c \<Longrightarrow> shared_pending (int_status c) = Some p \<Longrightarrow>
    completion_counter c \<noteq> 255 \<Longrightarrow> create_effect n pol m (Ok p) (AList.update n (bump c) m)"
| joined_failed: "map_of m n = Some c \<Longrightarrow> int_status c = IFailed e i \<Longrightarrow>
    completion_counter c \<noteq> 255 \<Longrightarrow> create_effect n pol m (Err e) (AList.update n (bump c) m)"
| first: "vacant m n \<Longrightarrow> pend_name p = n \<Longrightarrow> pend_static_management_policy p = pol \<Longrightarrow>
    create_effect n pol m (Ok p)
    (AList.update n \<lparr>int_status = IPending p, completion_counter = 1\<rparr> m)"
| first_unconnected: "vacant m n \<Longrightarrow> pend_name p = n \<Longrightarrow> pend_static_management_policy p = pol \<Longrightarrow>
    (\<And>q. r \<noteq> Ok q) \<Longrightarrow> create_effect n pol m r
    (AList.update n \<lparr>int_status = IPending p, completion_counter = 1\<rparr> m)"
| first_failed: "vacant m n \<Longrightarrow> create_effect n pol m (Err e)
    (AList.update n \<lparr>int_status = IFailed e None, completion_counter = 1\<rparr> m)"

inductive_cases create_effectE: "create_effect n pol m r m'"

lemma insert_internal_eq [simp]:
  "insert_internal n c s = (Ok (), s\<lparr>internals := AList.update n c (internals s)\<rparr>)"
  by (simp add: insert_internal_def modify_def)

lemma increment_completion_eq:
  "map_of (internals s) n = Some c \<Longrightarrow> increment_completion n s =
     (if completion_counter c = 255 then (Panic ''attempt to add with overflow'', s)
      else (Ok (), s\<lparr>internals := AList.update n (bump c) (internals s)\<rparr>))"
  by (simp add: increment_completion_def reads_def bump_def ret_defs)

lemma join_existing_effect:
  assumes "join_existing d n p nw mode s = (r, s')"
    and "map_of (internals s) n = Some c" and "shared_pending (int_status c) = Some p"
  shows "create_effect n pol (internals s) r (internals s')"
proof -
  have v: "\<not> vacant (internals s) n"
    using assms(2,3) by (auto simp: vacant_def)
  let ?net = "case (nw, mode) of (Some n, Isolated) \<Rightarrow> add_container_to_network d (pend_id p) n | _ \<Rightarrow> returnR ()"
  have "within (same internals) ?net"
    by (auto intro!: same_networks same_rules split: option.split network.split)
  moreover obtain x t where x: "?net s = (x, t)" by (cases "?net s")
  ultimately have t: "internals t = internals s" by (rule within_same)
  show ?thesis
  proof (cases x)
    case (Ok u)
    with assms t x show ?thesis
      by (auto simp: join_existing_def increment_completion_eq ret_defs bindR_def matchR_def
          split: if_splits intro: create_effect.intros)
  next
    case (Err e)
    with assms t x v show ?thesis
      by (auto simp: join_existing_def intro: create_effect.refused)
  next
    case (Panic q)
    with assms t x show ?thesis
      by (auto simp: join_existing_def intro: create_effect.refused)
  qed
qed

lemma create_impl_effect:
  assumes "create_internal_container_impl d c nw s = (r, s')"
  obtains p where "r = Ok p" "pend_name p = container_name c"
      "pend_static_management_policy p = static_management_policy_of c"
      "internals s' = AList.update (container_name c)
         \<lparr>int_status = IPending p, completion_counter = 1\<rparr> (internals s)"
  | e where "r = Err e" "internals s' = AList.update (container_name c)
         \<lparr>int_status = IFailed e None, completion_counter = 1\<rparr> (internals s)"
  | q where "r = Panic q" "internals s' = internals s"
proof -
  obtain x t where x: "create_container_inner d c nw s = (x, t)"
    by (cases "create_container_inner d c nw s")
  have t: "internals t = internals s"
    using same_create_container_inner x by (rule within_same) simp
  show thesis
  proof (cases x)
    case (Ok p)
    then have "pend_name p = container_name c" "pend_static_management_policy p = static_management_policy_of c"
      using x by (auto elim!: create_container_inner_Ok simp: PendingContainer_new_def)
    with Ok x t assms that(1) show ?thesis
      by (auto simp: create_internal_container_impl_def ret_defs)
  next
    case (Err e)
    with x t assms that(2) show ?thesis
      by (auto simp: create_internal_container_impl_def ret_defs)
  next
    case (Panic q)
    with x t assms that(3) show ?thesis
      by (auto simp: create_internal_container_impl_def ret_defs)
  qed
qed

lemma create_first_effect:
  assumes "create_first d c nw s = (r, s')" and "vacant (internals s) (container_name c)"
  shows "create_effect (container_name c) (static_management_policy_of c) (internals s) r (internals s')"
proof -
  obtain x t where x: "create_internal_container_impl d c nw s = (x, t)"
    by (cases "create_internal_container_impl d c nw s")
  then show ?thesis
  proof (cases rule: create_impl_effect)
    case (1 p)
    let ?net = "case nw of Some n \<Rightarrow> add_container_to_network d (pend_id p) n | None \<Rightarrow> returnR ()"
    have w: "within (same internals) ?net"
      by (auto intro!: same_networks same_rules split: option.split)
    obtain y u where y: "?net t = (y, u)" by (cases "?net t")
    with w have "internals u = internals t" by (rule within_same)
    with assms x y 1 show ?thesis
      by (cases y) (auto simp: create_first_def ret_defs intro: create_effect.intros)
  next
    case (2 e)
    with assms x show ?thesis by (auto simp: create_first_def intro: create_effect.intros)
  next
    case (3 q)
    with assms x show ?thesis by (auto simp: create_first_def intro: create_effect.intros)
  qed
qed

lemma internal_create_effect:
  assumes "internal_create d c nw mode s = (r, s')"
  shows "create_effect (container_name c) (static_management_policy_of c) (internals s) r (internals s')"
proof -
  have i: "create_internal_container_inner d c nw mode s = (r, s')"
    using assms by (cases "create_internal_container_inner d c nw mode s"; cases "fst (create_internal_container_inner d c nw mode s)")
      (auto simp: internal_create_def ret_defs)
  show ?thesis
  proof (cases "map_of (internals s) (container_name c)")
    case None
    with i show ?thesis
      by (auto simp: create_internal_container_inner_def reads_def vacant_def intro: create_first_effect)
  next
    case (Some ic)
    then show ?thesis
    proof (cases "int_status ic")
      case (IFailed e cid)
      with Some i show ?thesis
        by (auto simp: create_internal_container_inner_def reads_def increment_completion_eq ret_defs
            bindR_def matchR_def split: if_splits intro: create_effect.intros)
    qed (use Some i in \<open>auto simp: create_internal_container_inner_def reads_def vacant_def
          intro: create_first_effect join_existing_effect\<close>)
  qed
qed

text \<open>The counter within its range.\<close>

lemma counter_step:
  fixes w :: "8 word"
  assumes "w \<noteq> 255"
  shows "0 < w + 1" and "unat (w + 1) = Suc (unat w)"
proof -
  have "w + 1 \<noteq> 0"
  proof
    assume "w + 1 = 0"
    then have "w = - 1" by (simp add: eq_neg_iff_add_eq_0)
    with assms show False by simp
  qed
  then show "0 < w + 1" "unat (w + 1) = Suc (unat w)"
    by (simp_all add: word_gt_0 unatSuc add.commute)
qed

text \<open>The loop over the counters, as a map and a filter.\<close>

definition released :: "string list \<Rightarrow> internal_container \<Rightarrow> bool" where
  "released ids c \<longleftrightarrow> (\<exists>i \<in> set ids. container_id (int_status c) = Some i)"

definition release_one :: "string list \<Rightarrow> internal_container \<Rightarrow> internal_container" where
  "release_one ids c =
     (if released ids c then
        if completion_counter c = 1 then \<lparr>int_status = ICleaned, completion_counter = 0\<rparr>
        else c\<lparr>completion_counter := completion_counter c - 1\<rparr>
      else c)"

definition last_released :: "string list \<Rightarrow> (string \<times> internal_container) list \<Rightarrow> string list" where
  "last_released ids m = List.map_filter
     (\<lambda>(n, c). if released ids c \<and> completion_counter c = 1 then container_id (int_status c) else None) m"

definition internals_ok :: "(string \<times> internal_container) list \<Rightarrow> bool" where
  "internals_ok m \<longleftrightarrow> distinct (map fst m) \<and>
     (\<forall>(n, c) \<in> set m.
        (container_id (int_status c) \<noteq> None \<longrightarrow> 0 < completion_counter c)
      \<and> (\<forall>p. shared_pending (int_status c) = Some p \<longrightarrow> pend_name p = n))"

lemma internals_okD:
  assumes "internals_ok m" and "(n, c) \<in> set m"
  shows "container_id (int_status c) = Some i \<Longrightarrow> 0 < completion_counter c"
    and "shared_pending (int_status c) = Some p \<Longrightarrow> pend_name p = n"
  using assms by (auto simp: internals_ok_def)

lemma internals_ok_distinct: "internals_ok m \<Longrightarrow> distinct (map fst m)"
  by (simp add: internals_ok_def)

lemma internals_ok_update:
  assumes "internals_ok m"
    and "container_id (int_status c) \<noteq> None \<Longrightarrow> 0 < completion_counter c"
    and "\<And>p. shared_pending (int_status c) = Some p \<Longrightarrow> pend_name p = n"
  shows "internals_ok (AList.update n c m)"
proof -
  have "set (AList.update n c m) \<subseteq> insert (n, c) (set m)"
    by (induction m) auto
  with assms show ?thesis
    by (force simp: internals_ok_def distinct_update)
qed

lemma internals_ok_set_status:
  assumes "internals_ok m"
    and "\<And>c. map_of m n = Some c \<Longrightarrow> 0 < completion_counter c"
    and "\<And>p. shared_pending st = Some p \<Longrightarrow> pend_name p = n"
  shows "internals_ok (AList.map_entry n (\<lambda>c. c\<lparr>int_status := st\<rparr>) m)"
  using assms
proof (induction m)
  case Nil
  then show ?case by (simp add: internals_ok_def)
next
  case (Cons x m)
  obtain k c where x: "x = (k, c)" by (cases x)
  have m: "internals_ok m" "k \<notin> fst ` set m"
    using Cons.prems(1) x by (auto simp: internals_ok_def)
  show ?case
  proof (cases "k = n")
    case True
    with Cons.prems x m show ?thesis by (auto simp: internals_ok_def)
  next
    case False
    have "internals_ok (AList.map_entry n (\<lambda>c. c\<lparr>int_status := st\<rparr>) m)"
      using Cons.IH [OF m(1) _ Cons.prems(3)] Cons.prems(2) False x by simp
    moreover have "map fst (AList.map_entry n f m) = map fst m" for f
      by (induction m) auto
    ultimately show ?thesis
      using Cons.prems(1) x False by (auto simp: internals_ok_def)
  qed
qed

lemma decrement_entries_ok:
  assumes "internals_ok m"
  shows "decrement_entries ids m = (map (\<lambda>(n, c). (n, release_one ids c)) m, last_released ids m, False)"
  using assms
proof (induction m)
  case Nil
  then show ?case by (simp add: last_released_def)
next
  case (Cons x m)
  obtain n c where x: "x = (n, c)" by (cases x)
  have "internals_ok m" using Cons.prems x by (auto simp: internals_ok_def)
  with Cons.IH have IH: "decrement_entries ids m =
    (map (\<lambda>(n, c). (n, release_one ids c)) m, last_released ids m, False)" .
  have "container_id (int_status c) \<noteq> None \<Longrightarrow> completion_counter c \<noteq> 0"
    using internals_okD(1) [OF Cons.prems, of n c] x by auto
  with IH x show ?case
    by (auto simp: release_one_def released_def last_released_def List.map_filter_simps
        split: option.split)
qed

lemma decrement_completion_counters_ok:
  "internals_ok (internals s) \<Longrightarrow> decrement_completion_counters ids s =
     (Ok (last_released ids (internals s)),
      s\<lparr>internals := map (\<lambda>(n, c). (n, release_one ids c)) (internals s)\<rparr>)"
  by (simp add: decrement_completion_counters_def decrement_entries_ok)

lemma map_of_release:
  "map_of (map (\<lambda>(n, c). (n, release_one ids c)) m) n = map_option (release_one ids) (map_of m n)"
  by (induction m) auto

section \<open>The map stays well formed\<close>

lemma create_effect_ok:
  assumes "create_effect n pol m r m'" and "internals_ok m"
  shows "internals_ok m'"
  using assms
proof cases
  case refused
  with assms show ?thesis by simp
next
  case (joined c p)
  then have "(n, c) \<in> set m" by (auto dest: map_of_SomeD)
  with internals_okD(2) [OF assms(2)] joined show ?thesis
    by (auto intro!: internals_ok_update [OF assms(2)] simp: bump_def counter_step)
next
  case (joined_failed c e i)
  then show ?thesis
    by (auto intro!: internals_ok_update [OF assms(2)] simp: bump_def counter_step)
qed (auto intro!: internals_ok_update [OF assms(2)])

lemma release_ok:
  assumes "internals_ok m"
  shows "internals_ok (map (\<lambda>(n, c). (n, release_one ids c)) m)"
proof -
  have "container_id (int_status (release_one ids c)) \<noteq> None \<Longrightarrow> 0 < completion_counter (release_one ids c)"
    if "(n, c) \<in> set m" for n c
    using internals_okD(1) [OF assms that]
    by (auto simp: release_one_def word_gt_0 split: if_splits)
  moreover have "shared_pending (int_status (release_one ids c)) = Some p \<Longrightarrow> pend_name p = n"
    if "(n, c) \<in> set m" for n c p
    using internals_okD(2) [OF assms that] by (auto simp: release_one_def split: if_splits)
  ultimately show ?thesis
    using internals_ok_distinct [OF assms] by (auto simp: internals_ok_def comp_def case_prod_beta')
qed

text \<open>Starting changes at most the status of the started entry.\<close>

lemma internal_start_effect:
  assumes "lawful_waits d" and "internal_start d p s = (r, s')"
  obtains "internals s' = internals s"
  | c q st where "map_of (internals s) (pend_name p) = Some c" "int_status c = IPending q"
      "internals s' = AList.map_entry (pend_name p) (\<lambda>c. c\<lparr>int_status := st\<rparr>) (internals s)"
      "(\<exists>x. st = IOperational x q \<and> r = Ok x \<and> same_container q x)
       \<or> (\<exists>e. st = IFailed e (Some (pend_id p)) \<and> r = Err e)"
proof (cases "\<exists>c q. map_of (internals s) (pend_name p) = Some c \<and> int_status c = IPending q")
  case True
  then obtain c q where c: "map_of (internals s) (pend_name p) = Some c" "int_status c = IPending q"
    by blast
  obtain x t where x: "start_container_inner d q s = (x, t)" by (cases "start_container_inner d q s")
  have "registries t = registries s"
    using same_start_container_inner [OF assms(1)] x by (rule within_same)
  then have t: "internals t = internals s" by (simp add: registries_def)
  show thesis
  proof (cases x)
    case (Ok y)
    with x have "same_container q y" using start_container_inner_Ok [OF assms(1)] by blast
    with Ok c x t assms(2) show thesis
      by (auto intro!: that(2) [OF c]
          simp: internal_start_def reads_def set_internal_status_def modify_def ret_defs)
  next
    case (Err e)
    with c x t assms(2) show thesis
      by (auto intro!: that(2) [OF c]
          simp: internal_start_def reads_def set_internal_status_def modify_def ret_defs)
  next
    case (Panic y)
    with c x t assms(2) show thesis
      by (auto intro!: that(1) simp: internal_start_def reads_def)
  qed
next
  case False
  with assms(2) show thesis
    by (intro that(1))
       (auto simp: internal_start_def reads_def ret_defs split: option.splits internal_status.splits)
qed

lemma internal_start_keeps_ok:
  assumes "lawful_waits d" and "internal_start d p s = (r, s')" and ok: "internals_ok (internals s)"
  shows "internals_ok (internals s')"
  using assms(1,2)
proof (rule internal_start_effect)
  fix c q st
  assume m: "map_of (internals s) (pend_name p) = Some c" "int_status c = IPending q"
    and s': "internals s' = AList.map_entry (pend_name p) (\<lambda>c. c\<lparr>int_status := st\<rparr>) (internals s)"
    and st: "(\<exists>x. st = IOperational x q \<and> r = Ok x \<and> same_container q x)
      \<or> (\<exists>e. st = IFailed e (Some (pend_id p)) \<and> r = Err e)"
  have mem: "(pend_name p, c) \<in> set (internals s)" using m(1) by (rule map_of_SomeD)
  show ?thesis
    unfolding s'
  proof (rule internals_ok_set_status [OF ok])
    show "0 < completion_counter c'" if "map_of (internals s) (pend_name p) = Some c'" for c'
      using that m internals_okD(1) [OF ok mem, of "pend_id q"] by simp
    have "pend_name q = pend_name p"
      using m(2) by (intro internals_okD(2) [OF ok mem]) simp
    then show "pend_name q' = pend_name p" if "shared_pending st = Some q'" for q'
      using that st by (elim disjE exE conjE) simp_all
  qed
qed (use ok in simp)

section \<open>Traces and frames\<close>

lemma issues_create_first:
  assumes "\<not> is_static c \<Longrightarrow> R (InspectContainer (container_name c))"
    and "\<not> is_static c \<Longrightarrow> R (RemoveContainer (container_name c) True False)"
    and "\<And>b. R (CreateContainer (container_name c) b)" and "\<And>n i. R (ConnectNetwork n i)"
  shows "issues R (create_first d c nw)"
  unfolding create_first_def create_internal_container_impl_def insert_internal_def
  by (intro issues_rules issues_create_container_inner issues_networks assms) auto

lemma issues_increment: "issues R (increment_completion n)"
  unfolding increment_completion_def insert_internal_def by (intro issues_rules) simp

lemma issues_join_existing:
  "(\<And>n i. R (ConnectNetwork n i)) \<Longrightarrow> issues R (join_existing d n p nw mode)"
  unfolding join_existing_def
  by (intro issues_rules issues_increment)
     (auto intro!: issues_rules issues_networks split: option.split network.split)

lemma issues_internal_create:
  assumes "\<not> is_static c \<Longrightarrow> R (InspectContainer (container_name c))"
    and "\<not> is_static c \<Longrightarrow> R (RemoveContainer (container_name c) True False)"
    and "\<And>b. R (CreateContainer (container_name c) b)" and "\<And>n i. R (ConnectNetwork n i)"
  shows "issues R (internal_create d c nw mode)"
  unfolding internal_create_def create_internal_container_inner_def
  by (intro issues_rules)
     (auto intro!: issues_rules issues_create_first issues_join_existing issues_increment assms
        split: internal_status.split)

text \<open>The registry creates each shared container once, until it is cleaned.\<close>

definition internal_present :: "'w sys \<Rightarrow> string \<Rightarrow> bool" where
  "internal_present s n \<longleftrightarrow> \<not> vacant (internals s) n"

lemma create_effect_present:
  assumes "create_effect n pol m r m'"
  shows "\<not> vacant m k \<Longrightarrow> \<not> vacant m' k"
    and "\<forall>p. r \<noteq> Panic p \<Longrightarrow> \<not> vacant m' n"
proof -
  show "\<not> vacant m k \<Longrightarrow> \<not> vacant m' k"
    using assms by cases (auto simp: vacant_def bump_def split: if_splits)
  assume "\<forall>p. r \<noteq> Panic p"
  with assms show "\<not> vacant m' n"
    by cases (cases r; auto simp: vacant_def bump_def)+
qed

lemma creates_create_first: "adds (creates (container_name c)) 1 (create_first d c nw)"
proof -
  have inner: "adds (creates (container_name c)) 1 (create_container_inner d c nw)"
    using creates_container_inner [of "container_name c" c d nw] by simp
  have impl: "adds (creates (container_name c)) (1 + 0) (create_internal_container_impl d c nw)"
    unfolding create_internal_container_impl_def insert_internal_def
    by (intro adds_match [OF inner]) (auto intro!: adds_none issues_rules)
  have "adds (creates (container_name c)) ((1 + 0) + 0) (create_first d c nw)"
    unfolding create_first_def
    by (intro adds_bind [OF impl])
       (auto intro!: adds_none issues_rules issues_networks simp: creates_def split: option.split)
  then show ?thesis by simp
qed

lemma internal_create_vacant:
  "vacant (internals s) (container_name c) \<Longrightarrow>
   internal_create d c nw mode s = bindR (create_first d c nw) returnR s"
  by (auto simp: internal_create_def create_internal_container_inner_def reads_def vacant_def
      bindR_def matchR_def split: option.split)

lemma internal_create_present:
  assumes "\<not> vacant (internals s) (container_name c)" and "internal_create d c nw mode s = (r, s')"
    and "\<And>n i. R (ConnectNetwork n i)"
  shows "extends R s s'"
proof -
  obtain ic where ic: "map_of (internals s) (container_name c) = Some ic" "int_status ic \<noteq> ICleaned"
    using assms(1) by (auto simp: vacant_def)
  define m where "m = (case int_status ic of
       IPending p \<Rightarrow> join_existing d (container_name c) p nw mode
     | IOperational _ p \<Rightarrow> join_existing d (container_name c) p nw mode
     | IFailed e _ \<Rightarrow> bindR (increment_completion (container_name c)) (\<lambda>_. failR e)
     | ICleaned \<Rightarrow> failR undefined)"
  have "issues R (bindR m returnR)"
    unfolding m_def
    by (intro issues_rules)
       (auto intro!: issues_rules issues_join_existing issues_increment assms(3) split: internal_status.split)
  moreover have "internal_create d c nw mode s = bindR m returnR s"
    using ic by (cases "int_status ic")
      (simp_all add: internal_create_def create_internal_container_inner_def reads_def m_def
        bindR_def matchR_def)
  ultimately show ?thesis using assms(2) withinD by metis
qed

lemma internal_create_once:
  assumes o: "internal_create d c nw mode s = (r, s')"
  shows "internal_present s n \<Longrightarrow> internal_present s' n"
    and "internal_present s n \<or> n \<noteq> container_name c \<Longrightarrow>
      \<exists>rs. calls s' = calls s @ rs \<and> filter (creates n) rs = []"
    and "\<exists>rs. calls s' = calls s @ rs \<and> length (filter (creates (container_name c)) rs) \<le> 1
      \<and> (filter (creates (container_name c)) rs \<noteq> [] \<longrightarrow> (\<forall>p. r \<noteq> Panic p)
         \<longrightarrow> internal_present s' (container_name c))"
proof -
  note e = internal_create_effect [OF o]
  show "internal_present s n \<Longrightarrow> internal_present s' n"
    using create_effect_present(1) [OF e] by (simp add: internal_present_def)
  have silent: "\<exists>rs. calls s' = calls s @ rs \<and> filter (creates n) rs = []"
    if "extends (\<lambda>r. \<not> creates n r) s s'" for n
    using that by (auto simp: extends_def list_all_iff)
  have hit: "extends (\<lambda>r. \<not> creates n r) s s'" if "internal_present s (container_name c)" for n
    using that o by (intro internal_create_present) (auto simp: internal_present_def creates_def)
  have other: "extends (\<lambda>r. \<not> creates n r) s s'" if "n \<noteq> container_name c" for n
    using issues_internal_create [of c "\<lambda>r. \<not> creates n r" d nw mode] o that
    by (auto simp: creates_def dest: withinD)
  show "internal_present s n \<or> n \<noteq> container_name c \<Longrightarrow>
      \<exists>rs. calls s' = calls s @ rs \<and> filter (creates n) rs = []"
    using silent hit other by (cases "n = container_name c") blast+
  show "\<exists>rs. calls s' = calls s @ rs \<and> length (filter (creates (container_name c)) rs) \<le> 1
      \<and> (filter (creates (container_name c)) rs \<noteq> [] \<longrightarrow> (\<forall>p. r \<noteq> Panic p)
         \<longrightarrow> internal_present s' (container_name c))"
  proof (cases "internal_present s (container_name c)")
    case True
    with silent [OF hit] obtain rs where
      "calls s' = calls s @ rs" "filter (creates (container_name c)) rs = []" by blast
    then show ?thesis by simp
  next
    case False
    have "adds (creates (container_name c)) (1 + 0) (bindR (create_first d c nw) returnR)"
      by (intro adds_bind [OF creates_create_first]) (simp add: adds_def ret_defs)
    moreover have "bindR (create_first d c nw) returnR s = (r, s')"
      using False o internal_create_vacant by (metis internal_present_def)
    ultimately obtain rs where "calls s' = calls s @ rs"
      "length (filter (creates (container_name c)) rs) \<le> 1"
      by (auto dest: addsD)
    with create_effect_present(2) [OF e] show ?thesis by (auto simp: internal_present_def)
  qed
qed

interpretation shared: create_once "\<lambda>(c, nw, mode). internal_create d c nw mode"
  "\<lambda>(c, nw, mode). container_name c" internal_present creates for d :: "'w bollard"
  by unfold_locales (simp only: split_paired_all prod.case; rule internal_create_once; assumption)+

end
