(* ===== verification/Reference_Counting.thy ===== *)
theory Reference_Counting
  imports Internal_Containers
begin

text \<open>
  Why a shared container is not removed under a test that still uses it. The tests of a binary run
  concurrently; each call they make on the registry is one atomic step, in any interleaving. Ghost
  state records which test holds which container, which identifiers were handed out for removal and
  which the daemon ever assigned. The counters of \<open>Internal_Containers\<close> implement the abstract rule
  "an identifier is handed out when its last holder lets go".
\<close>

section \<open>The abstract rule\<close>

text \<open>
  \<open>ids n\<close> is the identifier registered under the name \<open>n\<close> and \<open>cnt n\<close> its counter; \<open>held\<close> has the
  triples of a test, a name and an identifier.
\<close>

type_synonym holding = "nat \<times> string \<times> string"

definition users :: "holding set \<Rightarrow> string \<Rightarrow> nat set" where
  "users held n = {t. \<exists>i. (t, n, i) \<in> held}"

definition counted ::
  "(string \<Rightarrow> string option) \<Rightarrow> (string \<Rightarrow> nat) \<Rightarrow> holding set \<Rightarrow> string set \<Rightarrow> string set \<Rightarrow> bool" where
  "counted ids cnt held handed seen \<longleftrightarrow>
     finite held
   \<and> (\<forall>t n i. (t, n, i) \<in> held \<longrightarrow> ids n = Some i)
   \<and> (\<forall>n. card (users held n) \<le> cnt n)
   \<and> (\<forall>n k i. ids n = Some i \<longrightarrow> ids k = Some i \<longrightarrow> n = k)
   \<and> (\<forall>n i. ids n = Some i \<longrightarrow> i \<in> seen \<and> i \<notin> handed)
   \<and> handed \<subseteq> seen"

lemma finite_users: "finite held \<Longrightarrow> finite (users held n)"
  by (rule finite_subset [of _ "fst ` held"]) (force simp: users_def)+

lemma counted_not_held: "counted ids cnt held handed seen \<Longrightarrow> i \<in> handed \<Longrightarrow> (t, n, i) \<notin> held"
  unfolding counted_def by metis

lemma users_insert: "users (insert (t, n, i) held) k = (if k = n then insert t (users held n) else users held k)"
  by (auto simp: users_def)

lemma counted_join:
  assumes "counted ids cnt held handed seen" and "ids n = Some i"
    and "held' = held \<or> held' = insert (t, n, i) held"
  shows "counted ids (cnt(n := Suc (cnt n))) held' handed seen"
proof -
  have le: "card (users held k) \<le> cnt k" for k
    using assms(1) by (simp add: counted_def)
  have "card (users held' k) \<le> (cnt(n := Suc (cnt n))) k" for k
    using assms(3) le [of k] card_insert_le_m1 [of "Suc (cnt n)" "users held n" t]
    by (auto simp: users_insert)
  with assms show ?thesis by (auto simp: counted_def)
qed

lemma counted_first:
  assumes "counted ids cnt held handed seen" and "ids n = None"
    and "\<And>i. x = Some i \<Longrightarrow> i \<notin> seen"
    and "held' = held \<or> (\<exists>i. x = Some i \<and> held' = insert (t, n, i) held)"
  shows "counted (ids(n := x)) (cnt(n := Suc 0)) held' handed (seen \<union> set_option x)"
proof -
  have none: "users held n = {}"
    using assms(1,2) by (force simp: counted_def users_def)
  have "card (users held' k) \<le> (cnt(n := Suc 0)) k" for k
    using assms(1,4) none by (auto simp: counted_def users_insert)
  with assms show ?thesis
    by (auto simp: counted_def split: if_splits)
qed

text \<open>The test \<open>t\<close> lets go of everything it holds, which is registered under identifiers of \<open>S\<close>.\<close>

definition let_go :: "nat \<Rightarrow> holding set \<Rightarrow> holding set" where
  "let_go t held = {h \<in> held. fst h \<noteq> t}"

lemma users_let_go: "users (let_go t held) n = users held n - {t}"
  by (auto simp: users_def let_go_def)

lemma users_let_go_le:
  assumes "finite held" and "card (users held n) \<le> k" and "b \<Longrightarrow> t \<in> users held n"
  shows "card (users (let_go t held) n) \<le> (if b then k - 1 else k)"
  using assms(2,3) finite_users [OF assms(1), of n] card_Diff1_le [of "users held n" t]
  by (auto simp: users_let_go intro: diff_le_mono)

lemma counted_release:
  assumes c: "counted ids cnt held handed seen"
    and mine: "\<And>n i. ids n = Some i \<Longrightarrow> i \<in> S \<longleftrightarrow> (t, n, i) \<in> held"
    and ids': "\<And>n. ids' n = (if (\<exists>i \<in> S. ids n = Some i) \<and> cnt n = 1 then None else ids n)"
    and cnt': "\<And>n. cnt' n = (if \<exists>i \<in> S. ids n = Some i then cnt n - 1 else cnt n)"
    and handed': "handed' = handed \<union> {i \<in> S. \<exists>n. ids n = Some i \<and> cnt n = 1}"
  shows "counted ids' cnt' (let_go t held) handed' seen"
proof -
  have fin: "finite held" and held: "\<And>t n i. (t, n, i) \<in> held \<Longrightarrow> ids n = Some i"
    and card: "\<And>n. card (users held n) \<le> cnt n"
    and inj: "\<And>n k i. ids n = Some i \<Longrightarrow> ids k = Some i \<Longrightarrow> n = k"
    and seen: "\<And>n i. ids n = Some i \<Longrightarrow> i \<in> seen \<and> i \<notin> handed" "handed \<subseteq> seen"
    using c by (auto simp: counted_def)
  have card': "card (users (let_go t held) n) \<le> cnt' n" for n
  proof -
    have "t \<in> users held n" if "\<exists>i \<in> S. ids n = Some i" using mine that by (auto simp: users_def)
    from users_let_go_le [OF fin card this] show ?thesis unfolding cnt' .
  qed
  have none: "users (let_go t held) n = {}" if "\<exists>i \<in> S. ids n = Some i" "cnt n = 1" for n
    using card' [of n] cnt' [of n] that finite_users [OF fin, of n] by (simp add: users_let_go)
  show ?thesis
    unfolding counted_def
  proof (intro conjI allI impI)
    show "finite (let_go t held)" using fin by (simp add: let_go_def)
    show "card (users (let_go t held) n) \<le> cnt' n" for n by (rule card')
    show "ids' n = Some i" if h: "(t', n, i) \<in> let_go t held" for t' n i
    proof -
      have "ids n = Some i" using held h by (auto simp: let_go_def)
      moreover have "users (let_go t held) n \<noteq> {}" using h by (auto simp: users_def)
      ultimately show ?thesis using none [of n] ids' by auto
    qed
    show "n = k" if "ids' n = Some i" "ids' k = Some i" for n k i
      using that inj [of n i k] by (auto simp: ids' split: if_splits)
    fix n i
    assume i: "ids' n = Some i"
    then have n: "ids n = Some i" "\<not> (i \<in> S \<and> cnt n = 1)"
      by (auto simp: ids' split: if_splits)
    show "i \<in> seen" using seen(1) [OF n(1)] ..
    have "k = n" if "ids k = Some i" for k
      using inj [OF that n(1)] .
    with n seen(1) [OF n(1)] show "i \<notin> handed'"
      unfolding handed' by blast
  next
    show "handed' \<subseteq> seen"
      using seen by (auto simp: handed')
  qed
qed

section \<open>The registry under interleaved tests\<close>

definition id_of :: "(string \<times> internal_container) list \<Rightarrow> string \<Rightarrow> string option" where
  "id_of m n = (case map_of m n of None \<Rightarrow> None | Some c \<Rightarrow> container_id (int_status c))"

definition count_of :: "(string \<times> internal_container) list \<Rightarrow> string \<Rightarrow> nat" where
  "count_of m n = (case map_of m n of None \<Rightarrow> 0 | Some c \<Rightarrow> unat (completion_counter c))"

record 'w sharing =
  sh_sys :: "'w sys"
  held :: "holding set"
  handed_out :: "string set"
  seen :: "string set"

text \<open>
  A step of one test. The daemon's identifiers are never reused: an entry registered by a first
  creation has an identifier not seen before. A test asks for a container it does not hold yet, starts
  those it holds, and its cleanup names the shared containers it holds. Every other operation of the
  library leaves the map alone.
\<close>

inductive sharing_step :: "'w bollard \<Rightarrow> 'w sharing \<Rightarrow> 'w sharing \<Rightarrow> bool" for d where
  create: "internal_create d c nw mode (sh_sys a) = (r, s') \<Longrightarrow>
    (\<And>i. vacant (internals (sh_sys a)) (container_name c) \<Longrightarrow>
       id_of (internals s') (container_name c) = Some i \<Longrightarrow> i \<notin> seen a) \<Longrightarrow>
    h = (case r of Ok p \<Rightarrow> insert (t, pend_name p, pend_id p) (held a) | _ \<Rightarrow> held a) \<Longrightarrow>
    sharing_step d a (a\<lparr>sh_sys := s', held := h,
      seen := seen a \<union> set_option (id_of (internals s') (container_name c))\<rparr>)"
| begin_start: "(t, pend_name p, pend_id p) \<in> held a \<Longrightarrow> internal_start d p (sh_sys a) = (r, s') \<Longrightarrow>
    sharing_step d a (a\<lparr>sh_sys := s'\<rparr>)"
| release: "(\<And>n i. id_of (internals (sh_sys a)) n = Some i \<Longrightarrow> i \<in> set ids \<longleftrightarrow> (t, n, i) \<in> held a) \<Longrightarrow>
    decrement_completion_counters ids (sh_sys a)
      = (r :: (docker_test_error, string list) result, s') \<Longrightarrow>
    sharing_step d a (a\<lparr>sh_sys := s', held := let_go t (held a),
      handed_out := handed_out a \<union> (case r of Ok rs \<Rightarrow> set rs | _ \<Rightarrow> {})\<rparr>)"
| other: "internals s' = internals (sh_sys a) \<Longrightarrow> sharing_step d a (a\<lparr>sh_sys := s'\<rparr>)"

inductive sharing_reachable :: "'w bollard \<Rightarrow> 'w sharing \<Rightarrow> bool" for d where
  init: "internals s = [] \<Longrightarrow>
    sharing_reachable d \<lparr>sh_sys = s, held = {}, handed_out = {}, seen = {}\<rparr>"
| step: "sharing_reachable d a \<Longrightarrow> sharing_step d a b \<Longrightarrow> sharing_reachable d b"

definition sharing_ok :: "'w sharing \<Rightarrow> bool" where
  "sharing_ok a \<longleftrightarrow> internals_ok (internals (sh_sys a))
     \<and> counted (id_of (internals (sh_sys a))) (count_of (internals (sh_sys a)))
         (held a) (handed_out a) (seen a)"

section \<open>The counters implement the rule\<close>

lemma id_of_update [simp]: "id_of (AList.update n c m) = (id_of m)(n := container_id (int_status c))"
  by (auto simp: id_of_def)

lemma count_of_update [simp]:
  "count_of (AList.update n c m) = (count_of m)(n := unat (completion_counter c))"
  by (auto simp: count_of_def)

lemma id_of_Some: "map_of m n = Some c \<Longrightarrow> id_of m n = container_id (int_status c)"
  by (simp add: id_of_def)

lemma count_of_Some: "map_of m n = Some c \<Longrightarrow> count_of m n = unat (completion_counter c)"
  by (simp add: count_of_def)

lemma shared_pending_id: "shared_pending st = Some p \<Longrightarrow> container_id st = Some (pend_id p)"
  by (cases st) auto

lemma id_of_vacant: "vacant m n \<Longrightarrow> id_of m n = None"
  by (auto simp: vacant_def id_of_def split: option.split)

lemma counted_seen: "counted ids cnt h handed sn \<Longrightarrow> ids n = x \<Longrightarrow> sn \<union> set_option x = sn"
  by (cases x) (auto simp: counted_def)

lemma counted_bump:
  assumes "counted (id_of m) (count_of m) h handed sn" and "map_of m n = Some c"
    and "completion_counter c \<noteq> 255"
    and "h' = h \<or> (\<exists>i. container_id (int_status c) = Some i \<and> h' = insert (t, n, i) h)"
  shows "counted (id_of (AList.update n (bump c) m)) (count_of (AList.update n (bump c) m)) h' handed sn"
proof -
  have ids: "id_of (AList.update n (bump c) m) = id_of m"
    using assms(2) by (auto simp: bump_def id_of_Some)
  have cnt: "count_of (AList.update n (bump c) m) = (count_of m)(n := Suc (count_of m n))"
    using assms(2,3) by (auto simp: bump_def count_of_Some counter_step(2))
  show ?thesis
  proof (cases "id_of m n")
    case (Some i)
    with assms ids cnt show ?thesis
      by (auto simp: id_of_Some intro: counted_join)
  next
    case None
    with assms have "h' = h" by (auto simp: id_of_Some)
    moreover have "card (users h k) \<le> count_of m k" for k
      using assms(1) by (simp add: counted_def)
    then have "card (users h k) \<le> ((count_of m)(n := Suc (count_of m n))) k" for k
      by (simp add: le_SucI)
    ultimately show ?thesis
      using assms(1) ids cnt by (auto simp: counted_def)
  qed
qed

lemma counted_create:
  assumes "create_effect n pol m r m'" and "internals_ok m"
    and "counted (id_of m) (count_of m) h handed sn"
    and "\<And>i. vacant m n \<Longrightarrow> id_of m' n = Some i \<Longrightarrow> i \<notin> sn"
    and "h' = (case r of Ok p \<Rightarrow> insert (t, pend_name p, pend_id p) h | _ \<Rightarrow> h)"
  shows "counted (id_of m') (count_of m') h' handed (sn \<union> set_option (id_of m' n))"
  using assms(1)
proof cases
  case refused
  then have "h' = h" using assms(5) by (cases r) auto
  with refused assms(3) show ?thesis by (simp add: counted_seen)
next
  case (joined c p)
  then have "(n, c) \<in> set m" by (auto dest: map_of_SomeD)
  with joined assms(2) have n: "pend_name p = n" by (auto dest: internals_okD(2))
  have i: "container_id (int_status c) = Some (pend_id p)"
    using joined(4) by (rule shared_pending_id)
  have "counted (id_of m') (count_of m') h' handed sn"
    unfolding joined(2)
    by (rule counted_bump [OF assms(3) joined(3,5)]) (use assms(5) joined n i in auto)
  moreover have "id_of m' n = id_of m n"
    using joined by (simp add: bump_def id_of_Some)
  ultimately show ?thesis by (simp add: counted_seen [OF assms(3)])
next
  case (joined_failed c e i)
  have "counted (id_of m') (count_of m') h' handed sn"
    unfolding joined_failed(2)
    by (rule counted_bump [OF assms(3) joined_failed(3,5)]) (use assms(5) joined_failed in auto)
  moreover have "id_of m' n = id_of m n"
    using joined_failed by (simp add: bump_def id_of_Some)
  ultimately show ?thesis by (simp add: counted_seen [OF assms(3)])
next
  case (first p)
  with assms counted_first [OF assms(3) id_of_vacant [OF first(3)], of "Some (pend_id p)" h' t]
  show ?thesis by simp
next
  case (first_unconnected p)
  then have "h' = h" using assms(5) by (cases r) auto
  with first_unconnected assms
    counted_first [OF assms(3) id_of_vacant [OF first_unconnected(2)], of "Some (pend_id p)" h' t]
  show ?thesis by simp
next
  case (first_failed e)
  with assms counted_first [OF assms(3) id_of_vacant [OF first_failed(3)], of None h' t]
  show ?thesis by simp
qed

lemma counted_set_status:
  assumes "map_of m n = Some c" and "container_id st = container_id (int_status c)"
  shows "id_of (AList.map_entry n (\<lambda>c. c\<lparr>int_status := st\<rparr>) m) = id_of m"
    and "count_of (AList.map_entry n (\<lambda>c. c\<lparr>int_status := st\<rparr>) m) = count_of m"
  using assms by (auto simp: id_of_def count_of_def map_of_map_entry fun_eq_iff split: option.split)

lemma unat_counter [simp]: "unat (w :: 8 word) = Suc 0 \<longleftrightarrow> w = 1"
proof
  assume "unat w = Suc 0"
  then have "word_of_nat (unat w) = (1 :: 8 word)" by simp
  then show "w = 1" by simp
qed simp

lemma set_map_filter: "set (List.map_filter f xs) = {y. \<exists>x \<in> set xs. f x = Some y}"
  by (induction xs) (auto simp: List.map_filter_simps split: option.split)

lemma map_filter_mem: "x \<in> set xs \<Longrightarrow> f x = Some y \<Longrightarrow> y \<in> set (List.map_filter f xs)"
  by (auto simp: set_map_filter)

lemma set_last_released:
  assumes "internals_ok m"
  shows "set (last_released ids m) = {i \<in> set ids. \<exists>n. id_of m n = Some i \<and> count_of m n = 1}"
proof (rule set_eqI)
  fix i
  have m: "(n, c) \<in> set m \<longleftrightarrow> map_of m n = Some c" for n c
    using internals_ok_distinct [OF assms] by simp
  have "i \<in> set (last_released ids m) \<longleftrightarrow>
    (\<exists>n c. (n, c) \<in> set m \<and> released ids c \<and> completion_counter c = 1
       \<and> container_id (int_status c) = Some i)"
    by (force simp: last_released_def set_map_filter split: if_splits)
  also have "\<dots> \<longleftrightarrow> i \<in> {i \<in> set ids. \<exists>n. id_of m n = Some i \<and> count_of m n = 1}"
    unfolding m by (auto simp: id_of_def count_of_def released_def split: option.splits)
  finally show "i \<in> set (last_released ids m) \<longleftrightarrow>
    i \<in> {i \<in> set ids. \<exists>n. id_of m n = Some i \<and> count_of m n = 1}" .
qed

lemma counted_decrement:
  assumes ok: "internals_ok m" and c: "counted (id_of m) (count_of m) h handed sn"
    and mine: "\<And>n i. id_of m n = Some i \<Longrightarrow> i \<in> set ids \<longleftrightarrow> (t, n, i) \<in> h"
  fixes m'
  defines "m' \<equiv> map (\<lambda>(n, c). (n, release_one ids c)) m"
  shows "counted (id_of m') (count_of m') (let_go t h) (handed \<union> set (last_released ids m)) sn"
proof (rule counted_release [OF c mine])
  have mo: "map_of m' n = map_option (release_one ids) (map_of m n)" for n
    by (simp add: m'_def map_of_release)
  show "id_of m' n = (if (\<exists>i \<in> set ids. id_of m n = Some i) \<and> count_of m n = 1 then None else id_of m n)" for n
    by (auto simp: mo id_of_def count_of_def release_one_def released_def split: option.split)
  show "count_of m' n = (if \<exists>i \<in> set ids. id_of m n = Some i then count_of m n - 1 else count_of m n)" for n
  proof (cases "map_of m n")
    case None
    then show ?thesis by (simp add: mo id_of_def count_of_def)
  next
    case (Some c)
    then have "(n, c) \<in> set m" by (rule map_of_SomeD)
    then have "container_id (int_status c) = Some i \<Longrightarrow> unat (completion_counter c - 1) = unat (completion_counter c) - 1" for i
      using internals_okD(1) [OF ok] unat_minus_one by (metis word_gt_0)
    with Some show ?thesis
      by (auto simp: mo id_of_def count_of_def release_one_def released_def)
  qed
  show "handed \<union> set (last_released ids m) = handed \<union> {i \<in> set ids. \<exists>n. id_of m n = Some i \<and> count_of m n = 1}"
    using set_last_released [OF ok] by simp
qed

lemma sharing_step_ok:
  assumes "lawful_waits d" and "sharing_step d a b" and "sharing_ok a"
  shows "sharing_ok b"
  using assms(2)
proof cases
  case (create c nw mode r s' h t)
  have e: "create_effect (container_name c) (static_management_policy_of c) (internals (sh_sys a)) r (internals s')"
    using create(2) by (rule internal_create_effect)
  show ?thesis
    using create_effect_ok [OF e] counted_create [OF e _ _ create(3,4)] assms(3) create(1)
    by (simp add: sharing_ok_def)
next
  case (begin_start t p r s')
  have h: "id_of (internals (sh_sys a)) (pend_name p) = Some (pend_id p)"
    using assms(3) begin_start(2) by (simp add: sharing_ok_def counted_def)
  from begin_start(3) show ?thesis
  proof (rule internal_start_effect [OF assms(1)])
    assume "internals s' = internals (sh_sys a)"
    with assms(3) begin_start(1) show ?thesis by (simp add: sharing_ok_def)
  next
    fix c q st
    assume m: "map_of (internals (sh_sys a)) (pend_name p) = Some c" "int_status c = IPending q"
      and s': "internals s' = AList.map_entry (pend_name p) (\<lambda>c. c\<lparr>int_status := st\<rparr>) (internals (sh_sys a))"
      and st: "(\<exists>x. st = IOperational x q \<and> r = Ok x \<and> same_container q x)
        \<or> (\<exists>e. st = IFailed e (Some (pend_id p)) \<and> r = Err e)"
    have id: "container_id st = container_id (int_status c)"
      using st h m by (auto simp: id_of_Some)
    have "internals_ok (internals s')"
      using internal_start_keeps_ok [OF assms(1) begin_start(3)] assms(3) by (simp add: sharing_ok_def)
    with assms(3) begin_start(1) counted_set_status [OF m(1) id] s' show ?thesis
      by (simp add: sharing_ok_def)
  qed
next
  case (release ids t r s')
  have ok: "internals_ok (internals (sh_sys a))" using assms(3) by (simp add: sharing_ok_def)
  have d: "r = Ok (last_released ids (internals (sh_sys a)))"
    "internals s' = map (\<lambda>(n, c). (n, release_one ids c)) (internals (sh_sys a))"
    using release(3) by (auto simp: decrement_completion_counters_ok [OF ok])
  show ?thesis
    using counted_decrement [OF ok _ release(2)] release_ok [OF ok] assms(3) release(1) d
    by (simp add: sharing_ok_def)
next
  case (other s')
  with assms(3) show ?thesis by (simp add: sharing_ok_def)
qed

lemma sharing_reachable_ok: "sharing_reachable d a \<Longrightarrow> lawful_waits d \<Longrightarrow> sharing_ok a"
proof (induction rule: sharing_reachable.induct)
  case (init s)
  then show ?case
    by (simp add: sharing_ok_def internals_ok_def counted_def id_of_def count_of_def users_def)
next
  case (step a b)
  then show ?case using sharing_step_ok by blast
qed

section \<open>Properties\<close>

text \<open>
  C2: however the tests interleave, a shared container whose identifier was handed out for removal
  is held by no test at that moment or later, as long as the daemon never reuses an identifier and
  readiness conditions keep their contract.
\<close>

theorem removed_containers_unused:
  assumes "sharing_reachable d a" and "lawful_waits d" and "i \<in> handed_out a"
  shows "(t, n, i) \<notin> held a"
  using sharing_reachable_ok [OF assms(1,2)] assms(3) counted_not_held
  by (auto simp: sharing_ok_def)

text \<open>
  C12: in every reachable state the counter of a shared container is at least the number of tests
  that hold it, a registered container is held under the identifier it is registered with, and no
  subtraction of a cleanup leaves the range of the counter.
\<close>

theorem counter_covers_users:
  assumes "sharing_reachable d a" and "lawful_waits d"
  shows "card (users (held a) n) \<le> count_of (internals (sh_sys a)) n
    \<and> ((t, n, i) \<in> held a \<longrightarrow> id_of (internals (sh_sys a)) n = Some i)
    \<and> fst (decrement_completion_counters ids (sh_sys a))
        = Ok (last_released ids (internals (sh_sys a)))"
  using sharing_reachable_ok [OF assms]
  by (simp add: sharing_ok_def counted_def decrement_completion_counters_ok)

end
