(* ===== verification/External_Containers.thy ===== *)
theory External_Containers
  imports Registry
begin

text \<open>
  \<open>src/static_container/external.rs\<close> and the first half of \<open>src/docker/static_container.rs\<close>:
  containers that run outside the control of the tests. The library looks them up and connects them
  to a network, and does nothing else with them.
\<close>

section \<open>Operations\<close>

definition include_static_external_container ::
  "'w bollard \<Rightarrow> composition \<Rightarrow> string option \<Rightarrow> network
   \<Rightarrow> ('w sys, docker_test_error, operational_container) action" where
  "include_static_external_container d c network network_mode =
     bindR (map_err (\<lambda>e. Daemon (''failed to inspect external container: '' @ b_display d e))
              (issue (InspectContainer (container_name c)) (b_inspect_container d (container_name c)))) (\<lambda>details.
     bindR (running_container_from_composition d c details) (\<lambda>running.
     bindR (case network_mode of
              ExternalNet _ \<Rightarrow> returnR ()
            | Isolated \<Rightarrow>
                (case network of
                   Some n \<Rightarrow> add_container_to_network d (oper_id running) n | None \<Rightarrow> returnR ())
            | Singular \<Rightarrow>
                (case network of
                   Some n \<Rightarrow> add_container_to_network d (oper_id running) n | None \<Rightarrow> returnR ())) (\<lambda>_.
     returnR running)))"

definition external_of :: "operational_container \<Rightarrow> static_external_container" where
  "external_of r = \<lparr>ext_handle = oper_handle r, ext_id = oper_id r\<rparr>"

definition external_include ::
  "'w bollard \<Rightarrow> composition \<Rightarrow> string option \<Rightarrow> network
   \<Rightarrow> ('w sys, docker_test_error, static_external_container) action" where
  "external_include d c network network_mode = reads externals (\<lambda>m.
     case map_of m (container_name c) of
       Some running \<Rightarrow>
         bindR (case network_mode of
                  Singular \<Rightarrow> returnR ()
                | ExternalNet _ \<Rightarrow> returnR ()
                | Isolated \<Rightarrow>
                    (case network of
                       Some n \<Rightarrow> add_container_to_network d (oper_id running) n | None \<Rightarrow> returnR ())) (\<lambda>_.
         returnR (external_of running))
     | None \<Rightarrow>
         bindR (include_static_external_container d c network network_mode) (\<lambda>running.
         bindR (modify (\<lambda>s. s\<lparr>externals := AList.update (oper_name running) running (externals s)\<rparr>)) (\<lambda>_.
         returnR (external_of running))))"

definition external_containers_list :: "('w sys, 'e, operational_container list) action" where
  "external_containers_list = reads externals (\<lambda>m. returnR (map snd m))"

definition external_disconnect_impl ::
  "'w bollard \<Rightarrow> string \<Rightarrow> string list \<Rightarrow> ('w sys, docker_test_error, unit) action" where
  "external_disconnect_impl d network to_cleanup = reads externals (\<lambda>m. forR (map snd m) (\<lambda>container.
     if oper_id container \<in> set to_cleanup then disconnect_container d (oper_id container) network
     else returnR ()))"

definition external_disconnect ::
  "'w bollard \<Rightarrow> string \<Rightarrow> network \<Rightarrow> string list \<Rightarrow> ('w sys, docker_test_error, unit) action" where
  "external_disconnect d network network_mode to_cleanup =
     (case network_mode of
        Singular \<Rightarrow> returnR ()
      | ExternalNet _ \<Rightarrow> returnR ()
      | Isolated \<Rightarrow> external_disconnect_impl d network to_cleanup)"

section \<open>Facts\<close>

lemma issues_disconnect_container: "R (DisconnectNetwork nw cid True) \<Longrightarrow> issues R (disconnect_container d cid nw)"
  unfolding disconnect_container_def by (intro issues_ignore_err issues_rules)

lemma same_disconnect_container:
  "(\<And>s w c. g (s\<lparr>world := w, calls := c\<rparr>) = g s) \<Longrightarrow> within (same g) (disconnect_container d cid nw)"
  unfolding disconnect_container_def by (intro same_ignore_err same_rules)

lemma forR_disconnect_calls:
  assumes "forR xs (\<lambda>x. if P x then disconnect_container d (f x) nw else returnR ()) s = (r, s')"
  shows "r = Ok () \<and> calls s' = calls s @ map (\<lambda>x. DisconnectNetwork nw (f x) True) (filter P xs)"
  using assms
proof (induction xs arbitrary: s)
  case Nil
  then show ?case by (auto simp: ret_defs)
next
  case (Cons x xs)
  show ?case
  proof (cases "P x")
    case True
    obtain q t where t: "disconnect_container d (f x) nw s = (q, t)"
      by (cases "disconnect_container d (f x) nw s")
    with True Cons disconnect_container_calls [OF t] show ?thesis by auto
  next
    case False
    with Cons show ?thesis by (auto simp: ret_defs)
  qed
qed

lemma issues_include_static_external:
  assumes "R (InspectContainer (container_name c))" and "\<And>n i. R (ConnectNetwork n i)"
  shows "issues R (include_static_external_container d c nw mode)"
  unfolding include_static_external_container_def
  by (intro issues_rules issues_running_container assms(1))
     (auto intro!: issues_rules issues_networks assms(2) split: network.split option.split)

lemma issues_external_include:
  assumes "R (InspectContainer (container_name c))" and "\<And>n i. R (ConnectNetwork n i)"
  shows "issues R (external_include d c nw mode)"
  unfolding external_include_def
  by (intro issues_rules issues_include_static_external assms)
     (auto intro!: issues_rules issues_networks issues_include_static_external assms
        split: network.split option.split)

lemma issues_external_disconnect:
  "(\<And>i. R (DisconnectNetwork nw i True)) \<Longrightarrow> issues R (external_disconnect d nw mode ids)"
  unfolding external_disconnect_def external_disconnect_impl_def
  by (cases mode) (auto intro!: issues_rules issues_disconnect_container)

lemma same_include_static_external:
  assumes "\<And>s w c. g (s\<lparr>world := w, calls := c\<rparr>) = g s" and "\<And>s x. g (s\<lparr>state_cells := x\<rparr>) = g s"
  shows "within (same g) (include_static_external_container d c nw mode)"
  unfolding include_static_external_container_def
  by (intro same_rules same_running_container assms)
     (auto intro!: same_rules same_networks assms split: network.split option.split)

lemma same_external_include:
  assumes "\<And>s w c. g (s\<lparr>world := w, calls := c\<rparr>) = g s" and "\<And>s x. g (s\<lparr>state_cells := x\<rparr>) = g s"
    and "\<And>s x. g (s\<lparr>externals := x\<rparr>) = g s"
  shows "within (same g) (external_include d c nw mode)"
  unfolding external_include_def
  by (intro same_rules same_include_static_external assms)
     (auto intro!: same_rules same_networks same_include_static_external assms
        split: network.split option.split)

lemma same_external_disconnect:
  assumes "\<And>s w c. g (s\<lparr>world := w, calls := c\<rparr>) = g s"
  shows "within (same g) (external_disconnect d nw mode ids)"
  unfolding external_disconnect_def external_disconnect_impl_def
  by (cases mode) (auto intro!: same_rules same_disconnect_container assms)

text \<open>An included container is remembered, and a second inclusion asks for no inspection.\<close>

lemma external_include_known:
  assumes "map_of (externals s) (container_name c) = Some r"
  shows "external_include d c nw mode s = bindR
     (case (mode, nw) of (Isolated, Some n) \<Rightarrow> add_container_to_network d (oper_id r) n | _ \<Rightarrow> returnR ())
     (\<lambda>_. returnR (external_of r)) s"
  using assms by (auto simp: external_include_def reads_def split: network.split option.split)

end
