(* ===== verification/Dynamic_Containers.thy ===== *)
theory Dynamic_Containers
  imports External_Containers Operations
begin

text \<open>
  \<open>src/static_container/dynamic.rs\<close> and \<open>create_dynamic_container\<close> of
  \<open>src/docker/static_container.rs\<close>: containers that are created when they do not exist, are left
  running when the tests end, and are otherwise treated like external ones.
\<close>

section \<open>Operations\<close>

definition create_dynamic_container ::
  "'w bollard \<Rightarrow> composition \<Rightarrow> string option
   \<Rightarrow> ('w sys, docker_test_error, dynamic_creation) action" where
  "create_dynamic_container d c network =
     matchR (issue (InspectContainer (container_name c)) (b_inspect_container d (container_name c)))
       (\<lambda>details.
          bindR (case ir_state details of
                   Some (Some status) \<Rightarrow>
                     if status \<noteq> RUNNING then
                       map_err (\<lambda>e. Daemon (''failed to remove existing container: '' @ b_display d e))
                         (issue (RemoveContainer (container_name c) True False)
                            (b_remove_container d (container_name c) True False))
                     else returnR ()
                 | _ \<Rightarrow> returnR ()) (\<lambda>_.
          bindR (running_container_from_composition d c details) (\<lambda>running.
          bindR (case network of
                   Some n \<Rightarrow> add_container_to_network d (oper_id running) n
                 | None \<Rightarrow> returnR ()) (\<lambda>_.
          returnR (CreateRunningPrior running)))))
       (\<lambda>e. case e of
          DockerResponseServerError status_code _ \<Rightarrow>
            if status_code = 404 then
              bindR (create_container_inner d c network) (\<lambda>pending.
              bindR (case network of
                       Some n \<Rightarrow> add_container_to_network d (pend_id pending) n
                     | None \<Rightarrow> returnR ()) (\<lambda>_.
              returnR (CreatePending pending)))
            else failR (Daemon (''failed to inspect dynamic container: '' @ b_display d e))
        | OtherError _ \<Rightarrow> failR (Daemon (''failed to inspect dynamic container: '' @ b_display d e)))"

definition insert_dynamic :: "string \<Rightarrow> dynamic_status \<Rightarrow> ('w sys, 'e, unit) action" where
  "insert_dynamic n st = modify (\<lambda>s. s\<lparr>dynamics := AList.update n st (dynamics s)\<rparr>)"

definition join_isolated ::
  "'w bollard \<Rightarrow> string \<Rightarrow> string option \<Rightarrow> network \<Rightarrow> ('w sys, docker_test_error, unit) action" where
  "join_isolated d cid network network_setting =
     (case (network, network_setting) of
        (Some n, Isolated) \<Rightarrow> add_container_to_network d cid n
      | _ \<Rightarrow> returnR ())"

definition dynamic_create ::
  "'w bollard \<Rightarrow> composition \<Rightarrow> string option \<Rightarrow> network
   \<Rightarrow> ('w sys, docker_test_error, created_container) action" where
  "dynamic_create d c network network_setting = reads dynamics (\<lambda>m.
     case map_of m (container_name c) of
       Some (DPending p) \<Rightarrow>
         bindR (join_isolated d (pend_id p) network network_setting) (\<lambda>_. returnR (Pending p))
     | Some (DRunning _ p) \<Rightarrow>
         bindR (join_isolated d (pend_id p) network network_setting) (\<lambda>_. returnR (Pending p))
     | Some (DFailed e) \<Rightarrow> failR e
     | Some (DRunningPrior r) \<Rightarrow>
         bindR (join_isolated d (oper_id r) network network_setting)
           (\<lambda>_. returnR (StaticExternal (external_of r)))
     | None \<Rightarrow>
         bindR (create_dynamic_container d c network) (\<lambda>created. case created of
           CreateRunningPrior running \<Rightarrow>
             bindR (insert_dynamic (oper_name running) (DRunningPrior running))
               (\<lambda>_. returnR (StaticExternal (external_of running)))
         | CreatePending pending \<Rightarrow>
             bindR (insert_dynamic (pend_name pending) (DPending pending))
               (\<lambda>_. returnR (Pending pending))))"

definition dynamic_start ::
  "'w bollard \<Rightarrow> pending_container \<Rightarrow> ('w sys, docker_test_error, operational_container) action" where
  "dynamic_start d container = reads dynamics (\<lambda>m. case map_of m (pend_name container) of
       Some (DRunning r _) \<Rightarrow> returnR r
     | Some (DRunningPrior r) \<Rightarrow> returnR r
     | Some (DPending p) \<Rightarrow>
         matchR (start_container_inner d p)
           (\<lambda>r. bindR (insert_dynamic (pend_name container) (DRunning r p)) (\<lambda>_. returnR r))
           (\<lambda>e. bindR (insert_dynamic (pend_name container) (DFailed e)) (\<lambda>_. failR e))
     | Some (DFailed e) \<Rightarrow> failR e
     | None \<Rightarrow> failR (Startup ''tried to start a non-existing dynamic container''))"

fun running_prior :: "dynamic_status \<Rightarrow> operational_container option" where
  "running_prior (DRunningPrior c) = Some c"
| "running_prior (DRunning _ _) = None"
| "running_prior (DPending _) = None"
| "running_prior (DFailed _) = None"

definition prior_running_containers :: "('w sys, 'e, operational_container list) action" where
  "prior_running_containers = reads dynamics (\<lambda>m. returnR (List.map_filter (\<lambda>x. running_prior (snd x)) m))"

text \<open>The keys of the map, which are names, are compared with the identifiers to clean up.\<close>

definition dynamic_disconnect ::
  "'w bollard \<Rightarrow> string \<Rightarrow> network \<Rightarrow> string list \<Rightarrow> ('w sys, docker_test_error, unit) action" where
  "dynamic_disconnect d network network_mode to_cleanup =
     (case network_mode of
        ExternalNet _ \<Rightarrow> returnR ()
      | Singular \<Rightarrow> returnR ()
      | Isolated \<Rightarrow> reads dynamics (\<lambda>m. forR (map fst m) (\<lambda>i.
          if i \<in> set to_cleanup then disconnect_container d i network else returnR ())))"

section \<open>Facts\<close>

lemma issues_join_isolated:
  "(\<And>n. R (ConnectNetwork n i)) \<Longrightarrow> issues R (join_isolated d i nw mode)"
  unfolding join_isolated_def by (auto intro!: issues_rules issues_networks split: option.split network.split)

lemma same_join_isolated:
  "(\<And>s w c. g (s\<lparr>world := w, calls := c\<rparr>) = g s) \<Longrightarrow> within (same g) (join_isolated d i nw mode)"
  unfolding join_isolated_def by (auto intro!: same_rules same_networks split: option.split network.split)

lemma issues_create_dynamic:
  assumes "R (InspectContainer (container_name c))" and "R (RemoveContainer (container_name c) True False)"
    and "\<And>b. R (CreateContainer (container_name c) b)" and "\<And>n i. R (ConnectNetwork n i)"
  shows "issues R (create_dynamic_container d c nw)"
  unfolding create_dynamic_container_def
  by (intro issues_rules issues_running_container issues_create_container_inner assms)
     (auto intro!: issues_rules issues_networks issues_create_container_inner assms
        split: option.split b_error.split)

lemma issues_dynamic_create:
  assumes "R (InspectContainer (container_name c))" and "R (RemoveContainer (container_name c) True False)"
    and "\<And>b. R (CreateContainer (container_name c) b)" and "\<And>n i. R (ConnectNetwork n i)"
  shows "issues R (dynamic_create d c nw mode)"
  unfolding dynamic_create_def insert_dynamic_def
  by (intro issues_rules)
     (auto intro!: issues_rules issues_create_dynamic issues_join_isolated assms
        split: option.split dynamic_status.split dynamic_creation.split)

lemma issues_dynamic_disconnect:
  "(\<And>i. R (DisconnectNetwork nw i True)) \<Longrightarrow> issues R (dynamic_disconnect d nw mode ids)"
  unfolding dynamic_disconnect_def
  by (cases mode) (auto intro!: issues_rules issues_disconnect_container)

lemma issues_dynamic_start:
  assumes "lawful_waits d" and "\<And>r. observing r \<Longrightarrow> R r" and "\<And>n. R (StartContainer n)"
  shows "issues R (dynamic_start d p)"
  unfolding dynamic_start_def insert_dynamic_def
  by (intro issues_rules)
     (auto intro!: issues_rules issues_start_container_inner [OF assms(1)] assms(2,3)
        split: option.split dynamic_status.split)

lemma same_create_dynamic:
  assumes "\<And>s w c. g (s\<lparr>world := w, calls := c\<rparr>) = g s" and "\<And>s x. g (s\<lparr>state_cells := x\<rparr>) = g s"
  shows "within (same g) (create_dynamic_container d c nw)"
  unfolding create_dynamic_container_def
  by (intro same_rules same_running_container same_create_container_inner assms)
     (auto intro!: same_rules same_networks same_create_container_inner assms
        split: option.split container_state_status_enum.split b_error.split)

lemma same_dynamic_create:
  assumes "\<And>s w c. g (s\<lparr>world := w, calls := c\<rparr>) = g s" and "\<And>s x. g (s\<lparr>state_cells := x\<rparr>) = g s"
    and "\<And>s x. g (s\<lparr>dynamics := x\<rparr>) = g s"
  shows "within (same g) (dynamic_create d c nw mode)"
  unfolding dynamic_create_def insert_dynamic_def
  by (intro same_rules)
     (auto intro!: same_rules same_create_dynamic same_join_isolated assms
        split: option.split dynamic_status.split dynamic_creation.split)

lemma same_dynamic_disconnect:
  assumes "\<And>s w c. g (s\<lparr>world := w, calls := c\<rparr>) = g s"
  shows "within (same g) (dynamic_disconnect d nw mode ids)"
  unfolding dynamic_disconnect_def
  by (cases mode) (auto intro!: same_rules same_disconnect_container assms)

end
