(* ===== verification/Static_Containers.thy ===== *)
theory Static_Containers
  imports Reference_Counting Dynamic_Containers
begin

text \<open>
  \<open>src/static_container/mod.rs\<close>: the dispatch over the three kinds of static containers, and the
  entry points \<open>create_container\<close> and \<open>start_container\<close> of \<open>src/docker\<close> that choose between static
  and other containers.
\<close>

section \<open>Operations\<close>

definition static_create ::
  "'w bollard \<Rightarrow> composition \<Rightarrow> string option \<Rightarrow> network
   \<Rightarrow> ('w sys, docker_test_error, created_container) action" where
  "static_create d c network network_mode =
     (case static_management_policy_of c of
        Some Internal \<Rightarrow>
          bindR (internal_create d c network network_mode) (\<lambda>p. returnR (Pending p))
      | Some External \<Rightarrow>
          bindR (external_include d c network network_mode) (\<lambda>e. returnR (StaticExternal e))
      | Some Dynamic \<Rightarrow> dynamic_create d c network network_mode
      | None \<Rightarrow> failR (Startup ''tried to create static container without a management policy''))"

definition static_external_containers :: "('w sys, 'e, operational_container list) action" where
  "static_external_containers =
     bindR external_containers_list (\<lambda>external.
     bindR prior_running_containers (\<lambda>dynamic_running_prior.
     returnR (external @ dynamic_running_prior)))"

definition static_start ::
  "'w bollard \<Rightarrow> pending_container \<Rightarrow> ('w sys, docker_test_error, operational_container) action" where
  "static_start d container =
     (case pend_static_management_policy container of
        Some External \<Rightarrow> failR (Startup ''tried to start an external container'')
      | Some Internal \<Rightarrow> internal_start d container
      | Some Dynamic \<Rightarrow> dynamic_start d container
      | None \<Rightarrow> failR (Startup ''tried to start a non-exiting static container''))"

definition static_cleanup ::
  "'w bollard \<Rightarrow> string \<Rightarrow> network \<Rightarrow> string list \<Rightarrow> ('w sys, docker_test_error, unit) action" where
  "static_cleanup d network network_mode to_cleanup =
     bindR (internal_cleanup d network to_cleanup) (\<lambda>_.
     bindR (dynamic_disconnect d network network_mode to_cleanup) (\<lambda>_.
     external_disconnect d network network_mode to_cleanup))"

definition create_container ::
  "'w bollard \<Rightarrow> composition \<Rightarrow> string option \<Rightarrow> network
   \<Rightarrow> ('w sys, docker_test_error, created_container) action" where
  "create_container d c network network_settings =
     (if is_static c then static_create d c network network_settings
      else bindR (create_container_inner d c network) (\<lambda>p. returnR (Pending p)))"

definition start_container ::
  "'w bollard \<Rightarrow> pending_container \<Rightarrow> ('w sys, docker_test_error, operational_container) action" where
  "start_container d pending =
     (if pend_is_static pending then static_start d pending else start_container_inner d pending)"

section \<open>Facts\<close>

text \<open>The removals of a cleanup are the shared containers whose last user is leaving.\<close>

lemma forR_remove_calls:
  assumes "forR ids (remove_container d) s = (r, s')"
  shows "r = Ok ()" "calls s' = calls s @ map (\<lambda>i. RemoveContainer i True False) ids"
  using forR_ignored_calls [OF assms [unfolded remove_container_def [abs_def]]] by auto

text \<open>The running shared containers among the given identifiers, in the order of the registry.\<close>

definition running_internals :: "string list \<Rightarrow> (string \<times> internal_container) list \<Rightarrow> string list" where
  "running_internals ids m = List.map_filter
     (\<lambda>(n, c). case int_status c of
        IOperational r _ \<Rightarrow> if oper_id r \<in> set ids then Some (oper_id r) else None
      | _ \<Rightarrow> None) m"

lemma set_running_internals: "set (running_internals ids m) \<subseteq> set ids"
  by (induction m) (auto simp: running_internals_def map_filter_simps split: option.splits internal_status.splits if_splits)

lemma same_internal_disconnect:
  assumes "\<And>s w c. g (s\<lparr>world := w, calls := c\<rparr>) = g s"
  shows "within (same g) (internal_disconnect d nw ids)"
  unfolding internal_disconnect_def
  by (intro same_rules)
     (auto intro!: same_rules same_disconnect_container assms split: internal_status.split)

lemma forR_internal_disconnect:
  assumes "forR m (\<lambda>(n, container). case int_status container of
       IOperational r _ \<Rightarrow>
         if oper_id r \<in> set ids then disconnect_container d (oper_id r) nw else returnR ()
     | _ \<Rightarrow> returnR ()) s = (r, s')"
  shows "r = Ok () \<and> calls s' = calls s @ map (\<lambda>i. DisconnectNetwork nw i True) (running_internals ids m)"
  using assms
proof (induction m arbitrary: s)
  case Nil
  then show ?case by (auto simp: ret_defs running_internals_def map_filter_simps)
next
  case (Cons x m)
  obtain n c where x: "x = (n, c)" by (cases x)
  show ?case
  proof (cases "\<exists>o' p. int_status c = IOperational o' p \<and> oper_id o' \<in> set ids")
    case True
    then obtain o' p where c: "int_status c = IOperational o' p" "oper_id o' \<in> set ids" by blast
    obtain q t where t: "disconnect_container d (oper_id o') nw s = (q, t)" by fastforce
    with c x Cons disconnect_container_calls [OF t] show ?thesis
      by (auto simp: running_internals_def map_filter_simps)
  next
    case False
    with x Cons show ?thesis
      by (cases "int_status c") (auto simp: ret_defs running_internals_def map_filter_simps)
  qed
qed

lemma internal_disconnect_effect:
  fixes d :: "'w bollard"
  assumes "internal_disconnect d nw ids s = (r, s')"
  shows "r = Ok () \<and> internals s' = internals s \<and> dynamics s' = dynamics s \<and> externals s' = externals s
    \<and> calls s' = calls s @ map (\<lambda>i. DisconnectNetwork nw i True) (running_internals ids (internals s))"
proof -
  have "within (same internals) (internal_disconnect d nw ids)"
    "within (same dynamics) (internal_disconnect d nw ids)" "within (same externals) (internal_disconnect d nw ids)"
    by (intro same_internal_disconnect; simp)+
  note same = this [THEN within_same, OF assms]
  with forR_internal_disconnect [OF assms [unfolded internal_disconnect_def reads_def]]
  show ?thesis by simp
qed

lemma same_forR_remove:
  assumes "\<And>s w c. g (s\<lparr>world := w, calls := c\<rparr>) = g s"
  shows "within (same g) (forR ids (remove_container d))"
  unfolding remove_container_def [abs_def] by (intro same_rules same_ignore_err assms)

lemma internal_cleanup_effect:
  assumes "internals_ok (internals s)" and "internal_cleanup d nw ids s = (r, s')"
  shows "r = Ok () \<and> internals s' = map (\<lambda>(n, c). (n, release_one ids c)) (internals s)
    \<and> dynamics s' = dynamics s \<and> externals s' = externals s
    \<and> calls s' = calls s @ map (\<lambda>i. DisconnectNetwork nw i True) (running_internals ids (internals s))
           @ map (\<lambda>i. RemoveContainer i True False) (last_released ids (internals s))"
proof -
  obtain x t where t: "internal_disconnect d nw ids s = (x, t)" by (cases "internal_disconnect d nw ids s")
  note e = internal_disconnect_effect [OF t]
  then have x: "x = Ok ()" by (cases x) auto
  have ok: "internals_ok (internals t)" using e assms(1) by simp
  let ?u = "t\<lparr>internals := map (\<lambda>(n, c). (n, release_one ids c)) (internals t)\<rparr>"
  have f: "forR (last_released ids (internals t)) (remove_container d) ?u = (r, s')"
    using assms(2) t x by (simp add: internal_cleanup_def decrement_completion_counters_ok [OF ok])
  have "internals s' = internals ?u" "dynamics s' = dynamics ?u" "externals s' = externals ?u"
    by (rule same_forR_remove [THEN within_same, OF _ f]; simp)+
  with forR_remove_calls [OF f] e show ?thesis
    by simp
qed

lemma dynamic_disconnect_effect:
  assumes "dynamic_disconnect d nw mode ids s = (r, s')"
  shows "r = Ok () \<and> calls s' = calls s @ (if mode = Isolated
    then map (\<lambda>n. DisconnectNetwork nw n True) (filter (\<lambda>n. n \<in> set ids) (map fst (dynamics s))) else [])"
  using assms forR_disconnect_calls [of "map fst (dynamics s)" "\<lambda>i. i \<in> set ids" d "\<lambda>i. i" nw s r s']
  by (cases mode) (auto simp: dynamic_disconnect_def reads_def ret_defs)

lemma external_disconnect_effect:
  assumes "external_disconnect d nw mode ids s = (r, s')"
  shows "r = Ok () \<and> calls s' = calls s @ (if mode = Isolated
    then map (\<lambda>c. DisconnectNetwork nw (oper_id c) True)
      (filter (\<lambda>c. oper_id c \<in> set ids) (map snd (externals s))) else [])"
  using assms forR_disconnect_calls [of "map snd (externals s)" "\<lambda>c. oper_id c \<in> set ids" d oper_id nw s r s']
  by (cases mode) (auto simp: external_disconnect_def external_disconnect_impl_def reads_def ret_defs)

text \<open>
  What a cleanup of static containers sends: the running shared containers are disconnected, the ones
  whose last user is leaving are removed, and on an isolated network the dynamic and the external ones
  are disconnected as well.
\<close>

definition static_requests :: "string \<Rightarrow> network \<Rightarrow> string list \<Rightarrow> 'w sys \<Rightarrow> request list" where
  "static_requests nw mode ids s =
     map (\<lambda>i. DisconnectNetwork nw i True) (running_internals ids (internals s))
     @ map (\<lambda>i. RemoveContainer i True False) (last_released ids (internals s))
     @ (if mode = Isolated
        then map (\<lambda>i. DisconnectNetwork nw i True)
          (filter (\<lambda>i. i \<in> set ids) (map fst (dynamics s) @ map (oper_id \<circ> snd) (externals s)))
        else [])"

lemma static_cleanup_effect:
  assumes "internals_ok (internals s)" and "static_cleanup d nw mode ids s = (r, s')"
  shows "r = Ok () \<and> calls s' = calls s @ static_requests nw mode ids s"
proof -
  obtain x t where t: "internal_cleanup d nw ids s = (x, t)" by (cases "internal_cleanup d nw ids s")
  obtain y u where u: "dynamic_disconnect d nw mode ids t = (y, u)" by (cases "dynamic_disconnect d nw mode ids t")
  note i = internal_cleanup_effect [OF assms(1) t] and e = dynamic_disconnect_effect [OF u]
  have f: "external_disconnect d nw mode ids u = (r, s')"
    using assms(2) t u i e by (simp add: static_cleanup_def)
  have "within (same externals) (dynamic_disconnect d nw mode ids)"
    by (rule same_dynamic_disconnect) simp
  then have "externals u = externals t" using u by (rule within_same)
  with i e external_disconnect_effect [OF f] show ?thesis
    by (simp add: static_requests_def filter_map comp_def)
qed

section \<open>Properties\<close>

text \<open>
  C3: the cleanup of static containers never fails; the containers it removes are exactly the shared
  internal ones whose last user is this test, and everything else it sends is a disconnection from
  the test's own network. External and dynamic containers are never removed.
\<close>

theorem static_cleanup_removes:
  assumes "internals_ok (internals s)" and "static_cleanup d nw mode ids s = (r, s')"
  shows "r = Ok () \<and> (\<exists>before after. calls s' = calls s @ before
      @ map (\<lambda>i. RemoveContainer i True False) (last_released ids (internals s)) @ after
    \<and> list_all (\<lambda>q. \<exists>i. q = DisconnectNetwork nw i True) (before @ after)
    \<and> (mode \<noteq> Isolated \<longrightarrow> after = []))"
proof -
  let ?leave = "\<lambda>i. DisconnectNetwork nw i True"
  let ?after = "if mode = Isolated then map ?leave
    (filter (\<lambda>i. i \<in> set ids) (map fst (dynamics s) @ map (oper_id \<circ> snd) (externals s))) else []"
  have "calls s' = calls s @ map ?leave (running_internals ids (internals s))
      @ map (\<lambda>i. RemoveContainer i True False) (last_released ids (internals s)) @ ?after"
    "list_all (\<lambda>q. \<exists>i. q = ?leave i) (map ?leave (running_internals ids (internals s)) @ ?after)"
    "mode \<noteq> Isolated \<longrightarrow> ?after = []"
    using static_cleanup_effect [OF assms] by (auto simp: static_requests_def list_all_iff)
  with static_cleanup_effect [OF assms] show ?thesis by blast
qed

text \<open>A dynamic container that exists when it is first asked for, running or not.\<close>

definition stale_removal :: "string \<Rightarrow> container_inspect_response \<Rightarrow> request list" where
  "stale_removal n details = (case ir_state details of
     Some (Some st) \<Rightarrow> if st \<noteq> RUNNING then [RemoveContainer n True False] else []
   | _ \<Rightarrow> [])"

lemma dynamic_found:
  assumes "static_management_policy_of c = Some Dynamic"
    and "map_of (dynamics s) (container_name c) = None"
    and "fst (b_inspect_container d (container_name c) (world s)) = Inr details"
    and "create_container d c nw mode s = (Ok x, s')"
  shows "\<exists>r joins. calls s' = calls s @ InspectContainer (container_name c)
        # stale_removal (container_name c) details @ joins
    \<and> list_all (\<lambda>q. \<exists>n. q = ConnectNetwork n (oper_id r)) joins
    \<and> map_of (dynamics s') (container_name c) = Some (DRunningPrior r)
    \<and> x = StaticExternal (external_of r) \<and> ir_id details = Some (oper_id r)"
proof -
  let ?n = "container_name c"
  let ?net = "\<lambda>r. case nw of Some n \<Rightarrow> add_container_to_network d (oper_id r) n | None \<Rightarrow> returnR ()"
  let ?rm = "case ir_state details of
      Some (Some status) \<Rightarrow>
        if status \<noteq> RUNNING then
          map_err (\<lambda>e. Daemon (''failed to remove existing container: '' @ b_display d e))
            (issue (RemoveContainer ?n True False) (b_remove_container d ?n True False))
        else returnR ()
    | _ \<Rightarrow> returnR ()"
  have st: "is_static c" using assms(1) by (simp add: is_static_def static_management_policy_of_def)
  define t where "t = snd (issue (InspectContainer ?n) (b_inspect_container d ?n) s)"
  have i: "issue (InspectContainer ?n) (b_inspect_container d ?n) s = (Ok details, t)"
    using assms(3) by (subst issue_eq) (simp add: t_def)
  from assms(1,2,4) st i obtain r u where r:
    "bindR ?rm (\<lambda>_. bindR (running_container_from_composition d c details) (\<lambda>running. bindR (?net running)
       (\<lambda>_. returnR (CreateRunningPrior running)))) t = (Ok (CreateRunningPrior r), u)"
    and x: "x = StaticExternal (external_of r)"
    and s': "s' = u\<lparr>dynamics := AList.update (oper_name r) (DRunningPrior r) (dynamics u)\<rparr>"
    by (auto simp: create_container_def static_create_def dynamic_create_def reads_def
        create_dynamic_container_def insert_dynamic_def modify_def ret_defs elim!: bindR_Ok)
  from r obtain t' v where rm: "?rm t = (Ok (), t')"
    and v: "running_container_from_composition d c details t' = (Ok r, v)" "?net r v = (Ok (), u)"
    by (auto elim!: bindR_Ok simp: ret_defs)
  have "calls t' = calls t @ stale_removal ?n details"
    using rm by (auto simp: stale_removal_def map_err_issue ret_defs split: option.splits if_splits sum.splits)
  then have "calls v = calls s @ InspectContainer ?n # stale_removal ?n details"
    using running_container_from_composition_Ok [OF v(1)] by (simp add: t_def)
  moreover have net: "issues (\<lambda>q. \<exists>n. q = ConnectNetwork n (oper_id r)) (?net r)"
    by (auto intro!: issues_rules issues_networks split: option.split)
  obtain joins where "calls u = calls v @ joins" "list_all (\<lambda>q. \<exists>n. q = ConnectNetwork n (oper_id r)) joins"
    using withinD [OF net v(2)] unfolding extends_def by blast
  ultimately show ?thesis
    using running_container_from_composition_Ok [OF v(1)] x s' by auto
qed

text \<open>
  C32: a dynamic container that the daemon reports as running when it is first asked for is left as it
  is: it is inspected and connected, recorded as running before the tests, and handed to every test,
  the first and the later ones, as a container that needs no start; nothing creates or removes it.
\<close>

theorem dynamic_running_left_alone:
  assumes "static_management_policy_of c = Some Dynamic"
    and "map_of (dynamics s) (container_name c) = None"
    and "fst (b_inspect_container d (container_name c) (world s)) = Inr details"
    and "ir_state details = Some (Some RUNNING)"
    and "create_container d c nw mode s = (Ok x, s')"
  shows "extends (\<lambda>q. q = InspectContainer (container_name c) \<or> (\<exists>n i. q = ConnectNetwork n i)) s s'
    \<and> (\<exists>r. map_of (dynamics s') (container_name c) = Some (DRunningPrior r)
        \<and> x = StaticExternal (external_of r) \<and> ir_id details = Some (oper_id r)
        \<and> create_container d c nw' Singular s' = (Ok x, s'))"
proof -
  have st: "is_static c" using assms(1) by (simp add: is_static_def static_management_policy_of_def)
  obtain r joins where "calls s' = calls s @ InspectContainer (container_name c)
        # stale_removal (container_name c) details @ joins"
    "list_all (\<lambda>q. \<exists>n. q = ConnectNetwork n (oper_id r)) joins"
    "map_of (dynamics s') (container_name c) = Some (DRunningPrior r)"
    "x = StaticExternal (external_of r)" "ir_id details = Some (oper_id r)"
    using dynamic_found [OF assms(1-3,5)] by blast
  then show ?thesis
    using assms(1,4) st
    by (auto simp: extends_def stale_removal_def list_all_iff create_container_def static_create_def dynamic_create_def
        reads_def join_isolated_def ret_defs split: option.split)
qed

text \<open>Such a container that does not run, as a whole: the removal, and then the joining of the network.\<close>

lemma dynamic_stopped_found:
  assumes "static_management_policy_of c = Some Dynamic"
    and "map_of (dynamics s) (container_name c) = None"
    and "b_inspect_container d (container_name c) (world s) = (Inr details, w1)"
    and "ir_state details = Some (Some st)" and "st \<noteq> RUNNING" and "ir_id details = Some i"
    and "b_remove_container d (container_name c) True False w1 = (removed, w2)"
  obtains r where "oper_id r = i"
    and "create_container d c (Some nw) mode s = (case removed of
      Inl e \<Rightarrow> (Err (Daemon (''failed to remove existing container: '' @ b_display d e)),
        s\<lparr>world := w2, calls := calls s @ [InspectContainer (container_name c), RemoveContainer (container_name c) True False]\<rparr>)
    | Inr _ \<Rightarrow> bindR (add_container_to_network d i nw) (\<lambda>_.
        bindR (insert_dynamic (container_name c) (DRunningPrior r)) (\<lambda>_. returnR (StaticExternal (external_of r))))
          (s\<lparr>world := w2, calls := calls s @ [InspectContainer (container_name c), RemoveContainer (container_name c) True False],
             state_cells := state_cells s @ [expected_state d (comp_wait c)]\<rparr>))"
proof -
  let ?n = "container_name c"
  let ?t = "s\<lparr>world := w2, calls := calls s @ [InspectContainer ?n, RemoveContainer ?n True False]\<rparr>"
  have static: "is_static c" using assms(1) by (simp add: is_static_def static_management_policy_of_def)
  obtain r where r: "running_container_from_composition d c details ?t
      = (Ok r :: (docker_test_error, _) result, ?t\<lparr>state_cells := state_cells s @ [expected_state d (comp_wait c)]\<rparr>)"
    "oper_id r = i" "oper_name r = ?n"
    by (simp add: running_container_from_composition_def new_state_cell_def action_defs assms(6))
  show thesis
    by (rule that [OF r(2)], use assms(7) r in \<open>cases removed\<close>)
       (simp_all add: create_container_def static_create_def dynamic_create_def create_dynamic_container_def
         reads_def static assms(1-6) issue_def map_err_def bindR_def matchR_def returnR_def failR_def
         split: prod.split result.split)
qed

text \<open>
  C39: a dynamic container that exists but does not run when it is first asked for: it is removed, by
  force, and never created or started again, and is then to be connected, by the identifier it had, to
  the network of the test, which every test passes. So the creation succeeds only if the daemon takes
  the container that is gone, or answers 403, and then it is handed out and recorded as running before
  the tests; otherwise the creation fails, with the removal done, and nothing is recorded.
\<close>

theorem dynamic_stopped_removed:
  assumes "static_management_policy_of c = Some Dynamic"
    and "map_of (dynamics s) (container_name c) = None"
    and "b_inspect_container d (container_name c) (world s) = (Inr details, w1)"
    and "ir_state details = Some (Some st)" and "st \<noteq> RUNNING" and "ir_id details = Some i"
    and "b_remove_container d (container_name c) True False w1 = (removed, w2)"
    and "create_container d c (Some nw) mode s = (x, s')"
  shows "case removed of
      Inl e \<Rightarrow> x = Err (Daemon (''failed to remove existing container: '' @ b_display d e))
        \<and> dynamics s' = dynamics s
        \<and> calls s' = calls s @ [InspectContainer (container_name c), RemoveContainer (container_name c) True False]
    | Inr _ \<Rightarrow>
        calls s' = calls s @ [InspectContainer (container_name c),
          RemoveContainer (container_name c) True False, ConnectNetwork nw i]
        \<and> (case fst (b_connect_network d nw i w2) of
             Inr _ \<Rightarrow> \<exists>r. oper_id r = i \<and> x = Ok (StaticExternal (external_of r))
               \<and> dynamics s' = AList.update (container_name c) (DRunningPrior r) (dynamics s)
           | Inl e \<Rightarrow>
               if \<exists>m. e = DockerResponseServerError 403 m
               then \<exists>r. oper_id r = i \<and> x = Ok (StaticExternal (external_of r))
                 \<and> dynamics s' = AList.update (container_name c) (DRunningPrior r) (dynamics s)
               else x = Err (Startup (''failed to add static container to dockertest network: '' @ b_display d e))
                 \<and> dynamics s' = dynamics s)"
proof -
  let ?n = "container_name c"
  define t where "t = s\<lparr>world := w2, calls := calls s @ [InspectContainer ?n, RemoveContainer ?n True False],
    state_cells := state_cells s @ [expected_state d (comp_wait c)]\<rparr>"
  obtain r where r: "oper_id r = i" and found: "create_container d c (Some nw) mode s = (case removed of
      Inl e \<Rightarrow> (Err (Daemon (''failed to remove existing container: '' @ b_display d e)),
        s\<lparr>world := w2, calls := calls s @ [InspectContainer ?n, RemoveContainer ?n True False]\<rparr>)
    | Inr _ \<Rightarrow> bindR (add_container_to_network d i nw) (\<lambda>_.
        bindR (insert_dynamic ?n (DRunningPrior r)) (\<lambda>_. returnR (StaticExternal (external_of r)))) t)"
    using assms(1-7) unfolding t_def by (rule dynamic_stopped_found)
  obtain y w3 where j: "b_connect_network d nw i w2 = (y, w3)" by fastforce
  have w: "world t = w2" "dynamics t = dynamics s"
    "calls t = calls s @ [InspectContainer ?n, RemoveContainer ?n True False]"
    by (simp_all add: t_def)
  note defs = add_container_to_network_def insert_dynamic_def modify_def issue_def bindR_def matchR_def ret_defs
  show ?thesis
  proof (cases removed)
    case (Inl e)
    with found assms(8) show ?thesis by auto
  next
    case removed: (Inr u)
    show ?thesis
    proof (cases y)
      case (Inl e)
      with removed found assms(8) j w r show ?thesis
        by (cases e) (auto simp: defs split: if_splits)
    next
      case (Inr v)
      with removed found assms(8) j w r show ?thesis by (auto simp: defs)
    qed
  qed
qed

end
