(* ===== verification/Cleanup.thy ===== *)
theory Cleanup
  imports Docker_Containers
begin

text \<open>
  \<open>src/container/cleanup.rs\<close>: forwarding the log of a container that is about to be cleaned up.
\<close>

section \<open>Operations\<close>

definition write_to :: "'w bollard \<Rightarrow> log_sink \<Rightarrow> string \<Rightarrow> ('w sys, string, unit) action" where
  "write_to d sink message = issue (WriteLog sink message) (write_sink d sink message)"

fun handle_log_line ::
  "'w bollard \<Rightarrow> log_action \<Rightarrow> log_entry \<Rightarrow> string option \<Rightarrow> ('w sys, docker_test_error, unit) action" where
  "handle_log_line d Forward entry file =
     (case le_source entry of
        Stdout \<Rightarrow> map_err (\<lambda>e. LogWriteError (''stdout: '' @ e)) (write_to d SinkStdout (le_message entry))
      | Stderr \<Rightarrow> map_err (\<lambda>e. LogWriteError (''stderr: '' @ e)) (write_to d SinkStderr (le_message entry)))"
| "handle_log_line d ForwardToStdErr entry file =
     map_err (\<lambda>e. LogWriteError (''stderr: '' @ e)) (write_to d SinkStderr (le_message entry))"
| "handle_log_line d ForwardToStdOut entry file =
     map_err (\<lambda>e. LogWriteError (''stdout: '' @ e)) (write_to d SinkStdout (le_message entry))"
| "handle_log_line d (ForwardToFile _) entry file =
     (case file of
        Some path \<Rightarrow> map_err (\<lambda>e. LogWriteError (''unable to write to log file: '' @ e))
          (write_to d (SinkFile path) (le_message entry))
      | None \<Rightarrow> failR (LogWriteError ''log file should not be None''))"

text \<open>
  The \<open>select!\<close> over the next item of the stream and the tick five seconds later, which runs once.
\<close>

datatype next_item = Data "docker_test_error + log_entry" | Closed | Waited

definition next_within :: "nat \<Rightarrow> entry_stream \<Rightarrow> next_item" where
  "next_within millis stream =
     (case es_items stream of
        (t, x) # _ \<Rightarrow> if t \<le> millis then Data x else Waited
      | [] \<Rightarrow> (case es_closed stream of
                 Some t \<Rightarrow> if t \<le> millis then Closed else Waited
               | None \<Rightarrow> Waited))"

text \<open>
  The log is a stream that sends its request when it is first polled, in the \<open>select!\<close>, and so after
  the file has been created, and not at all when that fails.
\<close>

definition handle_log ::
  "'w bollard \<Rightarrow> cleanup_container \<Rightarrow> log_action \<Rightarrow> log_source \<Rightarrow> ('w sys, docker_test_error, unit) action" where
  "handle_log d c action src =
     bindR (case action of
              ForwardToFile path \<Rightarrow>
                (let filepath = path @ ''/'' @ clean_name c in
                 bindR (map_err (\<lambda>e. LogWriteError (''unable to create log file: '' @ e))
                          (issue (CreateFile filepath) (create_file d filepath)))
                   (\<lambda>_. returnR (Some filepath)))
            | _ \<Rightarrow> returnR None) (\<lambda>file.
     bindR (container_logs d (clean_name c)
              \<lparr>log_stderr = (case src of StdErr \<Rightarrow> True | StdOut \<Rightarrow> False | Both \<Rightarrow> True),
               log_stdout = (case src of StdErr \<Rightarrow> False | StdOut \<Rightarrow> True | Both \<Rightarrow> True),
               log_follow = False\<rparr>) (\<lambda>stream.
     case next_within 5000 stream of
       Data (Inr line) \<Rightarrow> handle_log_line d action line file
     | Data (Inl e) \<Rightarrow> failR (LogWriteError (''unable to read docker log: '' @ display_error e))
     | Closed \<Rightarrow> returnR ()
     | Waited \<Rightarrow> returnR ()))"

section \<open>Facts\<close>

lemma same_handle_log_line:
  "(\<And>s w c. g (s\<lparr>world := w, calls := c\<rparr>) = g s) \<Longrightarrow> within (same g) (handle_log_line d a e f)"
  by (cases a)
     (auto simp: write_to_def intro!: same_rules split: message_source.split option.split)

lemma same_handle_log:
  "(\<And>s w c. g (s\<lparr>world := w, calls := c\<rparr>) = g s) \<Longrightarrow> within (same g) (handle_log d c a src)"
  unfolding handle_log_def Let_def
  by (intro same_rules)
     (auto intro!: same_rules same_container_logs same_handle_log_line split: log_action.split next_item.split sum.split)

definition log_requests :: "request \<Rightarrow> bool" where
  "log_requests r \<longleftrightarrow> (case r of
     ContainerLogs _ _ _ _ \<Rightarrow> True | CreateFile _ \<Rightarrow> True | WriteLog _ _ \<Rightarrow> True | _ \<Rightarrow> False)"

lemma issues_handle_log_line: "issues log_requests (handle_log_line d a e f)"
  by (cases a)
     (auto simp: write_to_def log_requests_def intro!: issues_rules split: message_source.split option.split)

lemma issues_handle_log: "issues log_requests (handle_log d c a src)"
  unfolding handle_log_def Let_def
  by (intro issues_rules)
     (auto simp: log_requests_def intro!: issues_rules issues_container_logs issues_handle_log_line
        split: log_action.split next_item.split sum.split)

end
