(* ===== verification/Engine.thy ===== *)
theory Engine
  imports Static_Containers Cleanup
begin

text \<open>
  \<open>src/engine.rs\<close>: the phases a test's containers go through, from the compositions (bootstrapping
  and fueling) over created (igniting) and started containers (orbiting) to what is cleaned up
  (debris). The index of a container in \<open>kept\<close> never changes, because the keeper's handles point at
  it.

  Futures that are joined run in an order that the runtime chooses (\<open>poll_order\<close>); the spawned starts of
  the relaxed containers run at points that a schedule chooses, also after the phase that spawned them
  has failed.
\<close>

section \<open>Phases\<close>

datatype transitional =
    TPending pending_container
  | TRunning operational_container
  | TCreationFailure docker_test_error
  | TStaticExternal static_external_container
  | TSentinel

record keeper =
  lookup_collisions :: "string list"
  lookup_handlers :: "(string \<times> nat) list"

record debris =
  deb_kept :: "cleanup_container list"
  deb_external :: "static_external_container list"

record 'p engine =
  eng_keeper :: keeper
  eng_phase :: 'p

text \<open>The phases before the teardown keep a single list, from \<open>Bootstrapping\<close> to \<open>Orbiting\<close>.\<close>

type_synonym bootstrapping_phase = "composition list"
type_synonym fueling_phase = "composition list"
type_synonym igniting_phase = "transitional list"
type_synonym orbiting_phase = "transitional list"

section \<open>Bootstrapping\<close>

fun register_handles :: "nat \<Rightarrow> composition list \<Rightarrow> keeper \<Rightarrow> keeper" where
  "register_handles i [] k = k"
| "register_handles i (c # cs) k = register_handles (Suc i) cs
     (if map_of (lookup_handlers k) (handle c) = None
      then k\<lparr>lookup_handlers := AList.update (handle c) i (lookup_handlers k)\<rparr>
      else k\<lparr>lookup_collisions := List.insert (handle c) (lookup_collisions k)\<rparr>)"

definition bootstrap :: "composition list \<Rightarrow> bootstrapping_phase engine" where
  "bootstrap compositions =
     \<lparr>eng_keeper = register_handles 0 compositions \<lparr>lookup_collisions = [], lookup_handlers = []\<rparr>,
      eng_phase = compositions\<rparr>"

text \<open>\<open>generate_random_string\<close> of \<open>src/utils.rs\<close>: letters drawn from \<open>b'a'..=b'z'\<close>.\<close>

primrec generate_random_string :: "'w bollard \<Rightarrow> nat \<Rightarrow> ('w sys, 'e, string) action" where
  "generate_random_string d 0 = returnR []"
| "generate_random_string d (Suc n) = bindR (in_world (random_range d 97 122)) (\<lambda>letter.
     bindR (generate_random_string d n) (\<lambda>rest. returnR (char_of letter # rest)))"

primrec configure_names ::
  "'w bollard \<Rightarrow> string \<Rightarrow> composition list \<Rightarrow> ('w sys, 'e, composition list) action" where
  "configure_names d namespace [] = returnR []"
| "configure_names d namespace (c # cs) =
     bindR (generate_random_string d 20) (\<lambda>sfx.
     bindR (configure_names d namespace cs) (\<lambda>cs'.
     returnR (configure_container_name namespace sfx c # cs')))"

definition resolve_final_container_name ::
  "'w bollard \<Rightarrow> string \<Rightarrow> bootstrapping_phase engine \<Rightarrow> ('w sys, 'e, bootstrapping_phase engine) action" where
  "resolve_final_container_name d namespace e =
     bindR (configure_names d namespace (eng_phase e)) (\<lambda>kept. returnR (e\<lparr>eng_phase := kept\<rparr>))"

section \<open>Fueling\<close>

text \<open>The next phase, with the same content.\<close>

definition fuel :: "bootstrapping_phase engine \<Rightarrow> fueling_phase engine" where
  "fuel e = \<lparr>eng_keeper = eng_keeper e, eng_phase = eng_phase e\<rparr>"

lemma fuel_same [simp]: "fuel e = e"
  by (simp add: fuel_def)

text \<open>
  Injecting container names into environments: a first pass that resolves every handle, stopping at
  the first error, and a second that writes the environments.
\<close>

fun resolve_injections ::
  "keeper \<Rightarrow> composition list \<Rightarrow> composition \<Rightarrow> (string \<times> string) list
   \<Rightarrow> (docker_test_error, (string \<times> string) list) result" where
  "resolve_injections k kept c [] = Ok []"
| "resolve_injections k kept c ((h, env) # rest) =
     (if h \<in> set (lookup_collisions k) then
        Err (Startup (''composition `'' @ handle c
          @ ''` attempted to inject_container_name_env on duplicate handle `'' @ h @ ''`''))
      else (case map_of (lookup_handlers k) h of
          None \<Rightarrow> Err (Startup (''composition `'' @ handle c
            @ ''` attempted to inject_container_name_env on non-existent handle `'' @ h @ ''`''))
        | Some index \<Rightarrow>
            if index < length kept then
              (case resolve_injections k kept c rest of
                 Ok r \<Rightarrow> Ok ((env, container_name (kept ! index)) # r)
               | Err e \<Rightarrow> Err e
               | Panic p \<Rightarrow> Panic p)
            else Panic ''index out of bounds''))"

fun resolve_all_injections ::
  "keeper \<Rightarrow> composition list \<Rightarrow> composition list
   \<Rightarrow> (docker_test_error, (string \<times> string) list list) result" where
  "resolve_all_injections k kept [] = Ok []"
| "resolve_all_injections k kept (c # cs) =
     (case resolve_injections k kept c (inject_container_name_env c) of
        Ok ts \<Rightarrow>
          (case resolve_all_injections k kept cs of
             Ok r \<Rightarrow> Ok (ts # r) | Err e \<Rightarrow> Err e | Panic p \<Rightarrow> Panic p)
      | Err e \<Rightarrow> Err e
      | Panic p \<Rightarrow> Panic p)"

definition inject_env :: "composition \<Rightarrow> (string \<times> string) list \<Rightarrow> composition" where
  "inject_env c ts = c\<lparr>comp_env := fold (\<lambda>(env, name) m. AList.update env name m) ts (comp_env c)\<rparr>"

definition resolve_inject_container_name_env ::
  "fueling_phase engine \<Rightarrow> (docker_test_error, fueling_phase engine) result" where
  "resolve_inject_container_name_env e =
     (case resolve_all_injections (eng_keeper e) (eng_phase e) (eng_phase e) of
        Ok transforms \<Rightarrow> Ok (e\<lparr>eng_phase := map2 inject_env (eng_phase e) transforms\<rparr>)
      | Err err \<Rightarrow> Err err
      | Panic p \<Rightarrow> Panic p)"

definition pull_images ::
  "'w bollard \<Rightarrow> source \<Rightarrow> fueling_phase engine \<Rightarrow> ('w sys, docker_test_error, unit) action" where
  "pull_images d default_source e =
     bindR (join_all (poll_order d) (map (\<lambda>c. pull_image d (comp_image c) default_source) (eng_phase e))) (\<lambda>_. returnR ())"

definition transitional_of :: "docker_test_error + created_container \<Rightarrow> transitional" where
  "transitional_of r =
     (case r of
        Inr (StaticExternal e) \<Rightarrow> TStaticExternal e
      | Inr (Pending p) \<Rightarrow> TPending p
      | Inl e \<Rightarrow> TCreationFailure e)"

definition ignite ::
  "'w bollard \<Rightarrow> string \<Rightarrow> network \<Rightarrow> fueling_phase engine
   \<Rightarrow> ('w sys, igniting_phase engine, igniting_phase engine) action" where
  "ignite d network network_settings e =
     bindR (join_all (poll_order d) (map (\<lambda>c. create_container d c (Some network) network_settings) (eng_phase e)))
       (\<lambda>created.
     let engine = \<lparr>eng_keeper = eng_keeper e, eng_phase = map transitional_of created\<rparr> in
     if list_ex isl created then failR engine else returnR engine)"

section \<open>Igniting: starting the containers\<close>

text \<open>
  When the spawned tasks run: before each strict start, before the first is joined, and, when a strict
  start has failed and left them detached, before the logs of the failed startup, before its teardown,
  and after it. Each point has the numbers of the tasks that run there.
\<close>

record schedule =
  before_strict :: "nat list list"
  before_join :: "nat list"
  before_startup_logs :: "nat list"
  before_teardown :: "nat list"
  after_teardown :: "nat list"

text \<open>
  A relaxed start is a spawned task: not run yet, finished with a result, or ended by a panic.
\<close>

datatype start_task =
    Todo pending_container
  | Finished "docker_test_error + operational_container"
  | TaskPanicked

definition run_task :: "'w bollard \<Rightarrow> start_task list \<Rightarrow> nat \<Rightarrow> ('w sys, 'e, start_task list) action" where
  "run_task d tasks k =
     (if k < length tasks then
        (case tasks ! k of
           Todo p \<Rightarrow> (\<lambda>s. case start_container d p s of
               (Ok r, s') \<Rightarrow> (Ok (tasks[k := Finished (Inr r)]), s')
             | (Err e, s') \<Rightarrow> (Ok (tasks[k := Finished (Inl e)]), s')
             | (Panic _, s') \<Rightarrow> (Ok (tasks[k := TaskPanicked]), s'))
         | _ \<Rightarrow> returnR tasks)
      else returnR tasks)"

primrec run_tasks :: "'w bollard \<Rightarrow> nat list \<Rightarrow> start_task list \<Rightarrow> ('w sys, 'e, start_task list) action" where
  "run_tasks d [] tasks = returnR tasks"
| "run_tasks d (k # ks) tasks = bindR (run_task d tasks k) (run_tasks d ks)"

text \<open>
  The strict containers, one after the other, up to the first error. Before each of them the
  schedule lets some of the spawned tasks run. An error comes with the tasks that it leaves detached.
\<close>

fun start_strict_containers ::
  "'w bollard \<Rightarrow> nat list list \<Rightarrow> start_task list \<Rightarrow> pending_container list
   \<Rightarrow> ('w sys, docker_test_error \<times> start_task list, operational_container list \<times> start_task list) action"
where
  "start_strict_containers d schedule tasks [] = returnR ([], tasks)"
| "start_strict_containers d schedule tasks (c # cs) =
     bindR (run_tasks d (case schedule of [] \<Rightarrow> [] | ks # _ \<Rightarrow> ks) tasks) (\<lambda>tasks'.
     bindR (map_err (\<lambda>e. (e, tasks')) (start_container d c)) (\<lambda>r.
     bindR (start_strict_containers d (tl schedule) tasks' cs) (\<lambda>(running, tasks'').
     returnR (r # running, tasks''))))"

fun gather_relaxed ::
  "start_task list \<Rightarrow> operational_container list \<Rightarrow> docker_test_error option
   \<Rightarrow> docker_test_error + operational_container list" where
  "gather_relaxed [] running None = Inr running"
| "gather_relaxed [] running (Some e) = Inl e"
| "gather_relaxed (Finished (Inr r) # ts) running first_error = gather_relaxed ts (running @ [r]) first_error"
| "gather_relaxed (Finished (Inl e) # ts) running first_error =
     gather_relaxed ts running (case first_error of None \<Rightarrow> Some e | Some _ \<Rightarrow> first_error)"
| "gather_relaxed (TaskPanicked # ts) running first_error =
     gather_relaxed ts running
       (case first_error of None \<Rightarrow> Some (Processing ''join error gathering'') | Some _ \<Rightarrow> first_error)"
| "gather_relaxed (Todo p # ts) running first_error = gather_relaxed ts running first_error"

text \<open>\<open>join_all\<close> waits for every task: those the schedule has not run yet run now.\<close>

definition wait_for_relaxed_containers ::
  "'w bollard \<Rightarrow> nat list \<Rightarrow> start_task list
   \<Rightarrow> ('w sys, docker_test_error, operational_container list) action" where
  "wait_for_relaxed_containers d ks tasks =
     bindR (run_tasks d (ks @ [0..<length tasks]) tasks) (\<lambda>done.
     liftE (gather_relaxed done [] None))"

fun started_position :: "operational_container \<Rightarrow> transitional list \<Rightarrow> nat option" where
  "started_position r [] = None"
| "started_position r (t # ts) =
     (if (case t of
            TPending p \<Rightarrow> pend_id p = oper_id r
          | TStaticExternal e \<Rightarrow> ext_handle e = oper_handle r
          | _ \<Rightarrow> False)
      then Some 0 else map_option Suc (started_position r ts))"

definition place :: "operational_container \<Rightarrow> transitional list \<Rightarrow> transitional list" where
  "place started kept =
     (case started_position started kept of
        Some i \<Rightarrow> kept[i := TRunning started]
      | None \<Rightarrow> kept)"

definition pending_of :: "transitional list \<Rightarrow> pending_container list" where
  "pending_of kept = List.map_filter (\<lambda>t. case t of TPending p \<Rightarrow> Some p | _ \<Rightarrow> None) kept"

definition start_containers ::
  "'w bollard \<Rightarrow> schedule \<Rightarrow> transitional list
   \<Rightarrow> ('w sys, docker_test_error \<times> start_task list, transitional list) action" where
  "start_containers d schedule kept =
     (let relaxed = filter (\<lambda>c. pend_start_policy c = Relaxed) (pending_of kept);
          strict = filter (\<lambda>c. pend_start_policy c \<noteq> Relaxed) (pending_of kept) in
      bindR (start_strict_containers d (before_strict schedule) (map Todo relaxed) strict)
        (\<lambda>(strict_success, starting_relaxed).
      bindR (map_err (\<lambda>e. (e, []))
        (wait_for_relaxed_containers d (before_join schedule) starting_relaxed)) (\<lambda>relaxed_success.
      bindR static_external_containers (\<lambda>externals.
      returnR (fold place (strict_success @ relaxed_success @ externals) kept)))))"

definition orbiting ::
  "'w bollard \<Rightarrow> schedule \<Rightarrow> igniting_phase engine
   \<Rightarrow> ('w sys, igniting_phase engine \<times> docker_test_error \<times> start_task list, orbiting_phase engine) action"
where
  "orbiting d schedule e =
     matchR (start_containers d schedule (eng_phase e))
       (\<lambda>kept. returnR (e\<lparr>eng_phase := kept\<rparr>))
       (\<lambda>err. failR (e, err))"

definition creation_failures :: "igniting_phase engine \<Rightarrow> docker_test_error list" where
  "creation_failures e =
     List.map_filter (\<lambda>t. case t of TCreationFailure err \<Rightarrow> Some err | _ \<Rightarrow> None) (eng_phase e)"

section \<open>Debris\<close>

text \<open>\<open>decommission\<close> of an igniting and of an orbiting engine.\<close>

definition external_refs :: "transitional list \<Rightarrow> static_external_container list" where
  "external_refs kept = List.map_filter (\<lambda>t. case t of TStaticExternal s \<Rightarrow> Some s | _ \<Rightarrow> None) kept"

definition decommission_igniting :: "igniting_phase engine \<Rightarrow> debris engine" where
  "decommission_igniting e =
     \<lparr>eng_keeper = eng_keeper e,
      eng_phase =
        \<lparr>deb_kept = List.map_filter (\<lambda>t. case t of
             TRunning r \<Rightarrow> Some (cleanup_from_operational r)
           | TPending r \<Rightarrow> Some (cleanup_from_pending r)
           | _ \<Rightarrow> None) (eng_phase e),
         deb_external = external_refs (eng_phase e)\<rparr>\<rparr>"

definition decommission_orbiting :: "orbiting_phase engine \<Rightarrow> debris engine" where
  "decommission_orbiting e =
     \<lparr>eng_keeper = eng_keeper e,
      eng_phase =
        \<lparr>deb_kept = List.map_filter (\<lambda>t. case t of
             TRunning r \<Rightarrow> Some (cleanup_from_operational r)
           | _ \<Rightarrow> None) (eng_phase e),
         deb_external = external_refs (eng_phase e)\<rparr>\<rparr>"

section \<open>Orbiting: lookup and inspection\<close>

definition handle_collision :: "orbiting_phase engine \<Rightarrow> string \<Rightarrow> bool" where
  "handle_collision e h \<longleftrightarrow> h \<in> set (lookup_collisions (eng_keeper e))"

definition resolve_handle ::
  "orbiting_phase engine \<Rightarrow> string \<Rightarrow> (docker_test_error, operational_container option) result" where
  "resolve_handle e h =
     (case map_of (lookup_handlers (eng_keeper e)) h of
        None \<Rightarrow> Ok None
      | Some index \<Rightarrow>
          if index < length (eng_phase e) then
            (case eng_phase e ! index of TRunning r \<Rightarrow> Ok (Some r) | _ \<Rightarrow> Ok None)
          else Panic ''index out of bounds'')"

text \<open>\<open>inspect\<close> updates the engine in place and collects the errors.\<close>

fun inspect_kept ::
  "'w bollard \<Rightarrow> string \<Rightarrow> transitional list
   \<Rightarrow> ('w sys, 'e, transitional list \<times> docker_test_error list) action" where
  "inspect_kept d network_name [] = returnR ([], [])"
| "inspect_kept d network_name (TRunning r # ts) =
     matchR (get_container_ip_and_ports d (oper_id r) network_name)
       (\<lambda>info. bindR (inspect_kept d network_name ts) (\<lambda>(ts', errors).
          returnR (TRunning (r\<lparr>oper_ip := info_ip info, oper_ports := info_ports info\<rparr>) # ts', errors)))
       (\<lambda>e. bindR (inspect_kept d network_name ts) (\<lambda>(ts', errors).
          returnR (TRunning r # ts', e # errors)))"
| "inspect_kept d network_name (t # ts) =
     bindR (inspect_kept d network_name ts) (\<lambda>(ts', errors). returnR (t # ts', errors))"

definition inspect ::
  "'w bollard \<Rightarrow> string \<Rightarrow> orbiting_phase engine
   \<Rightarrow> ('w sys, 'e, orbiting_phase engine \<times> docker_test_error list) action" where
  "inspect d network_name e =
     bindR (inspect_kept d network_name (eng_phase e)) (\<lambda>(kept, errors).
     returnR (e\<lparr>eng_phase := kept\<rparr>, errors))"

section \<open>Debris: logs and cleanup\<close>

text \<open>The errors of the forwarding are collected; the result is the list of them.\<close>

definition forward_log ::
  "'w bollard \<Rightarrow> cleanup_container \<Rightarrow> log_options \<Rightarrow> docker_test_error list
   \<Rightarrow> ('w sys, 'e, docker_test_error list) action" where
  "forward_log d c l errors =
     matchR (handle_log d c (lo_action l) (lo_source l)) (\<lambda>_. returnR errors)
       (\<lambda>e. returnR (errors @ [LogWriteError
          (''unable to handle logs for: '' @ clean_name c @ '': '' @ display_error e)]))"

fun handle_logs ::
  "'w bollard \<Rightarrow> bool \<Rightarrow> cleanup_container list \<Rightarrow> docker_test_error list
   \<Rightarrow> ('w sys, 'e, docker_test_error list) action" where
  "handle_logs d test_failed [] errors = returnR errors"
| "handle_logs d test_failed (c # cs) errors =
     bindR (case clean_log_options c of
              Some l \<Rightarrow>
                (case lo_policy l of
                   AlwaysLog \<Rightarrow> forward_log d c l errors
                 | OnError \<Rightarrow> if \<not> test_failed then returnR errors else forward_log d c l errors
                 | OnStartupError \<Rightarrow> returnR errors)
            | None \<Rightarrow> returnR errors) (\<lambda>errors'.
     handle_logs d test_failed cs errors')"

fun handle_startup_logs ::
  "'w bollard \<Rightarrow> cleanup_container list \<Rightarrow> docker_test_error list
   \<Rightarrow> ('w sys, 'e, docker_test_error list) action" where
  "handle_startup_logs d [] errors = returnR errors"
| "handle_startup_logs d (c # cs) errors =
     bindR (case clean_log_options c of
              Some l \<Rightarrow> forward_log d c l errors
            | None \<Rightarrow> returnR errors) (\<lambda>errors'.
     handle_startup_logs d cs errors')"

definition disconnect_static_containers ::
  "'w bollard \<Rightarrow> string \<Rightarrow> network \<Rightarrow> debris engine \<Rightarrow> ('w sys, docker_test_error, unit) action" where
  "disconnect_static_containers d network network_mode e =
     static_cleanup d network network_mode
       (map clean_id (filter clean_is_static (deb_kept (eng_phase e)))
        @ map ext_id (deb_external (eng_phase e)))"

definition cleanup_containers :: "debris engine \<Rightarrow> cleanup_container list" where
  "cleanup_containers e = deb_kept (eng_phase e)"

section \<open>Facts: the keeper\<close>

text \<open>The first index of a handle, and the handles that occur more than once.\<close>

fun first_index :: "string \<Rightarrow> string list \<Rightarrow> nat option" where
  "first_index h [] = None"
| "first_index h (x # xs) = (if x = h then Some 0 else map_option Suc (first_index h xs))"

definition repeated :: "string list \<Rightarrow> string \<Rightarrow> bool" where
  "repeated hs h \<longleftrightarrow> 1 < count_list hs h"

lemma first_index_Some:
  "first_index h xs = Some i \<Longrightarrow> i < length xs \<and> xs ! i = h \<and> (\<forall>j < i. xs ! j \<noteq> h)"
proof (induction xs arbitrary: i)
  case Nil
  then show ?case by simp
next
  case (Cons x xs)
  show ?case
  proof (cases "x = h")
    case True
    with Cons.prems show ?thesis by simp
  next
    case False
    with Cons.prems obtain j where j: "first_index h xs = Some j" "i = Suc j" by auto
    with False Cons.IH [OF j(1)] show ?thesis
      by (auto simp: less_Suc_eq_0_disj)
  qed
qed

lemma first_index_None: "first_index h xs = None \<longleftrightarrow> h \<notin> set xs"
  by (induction xs) auto

lemma register_handles_lookup:
  "map_of (lookup_handlers (register_handles i cs k)) h =
     (case map_of (lookup_handlers k) h of
        Some j \<Rightarrow> Some j
      | None \<Rightarrow> map_option ((+) i) (first_index h (map handle cs)))"
proof (induction cs arbitrary: i k)
  case Nil
  then show ?case by (simp split: option.split)
next
  case (Cons c cs)
  have "map_option ((+) i \<circ> Suc) x = map_option ((+) (Suc i)) x" for x
    by (cases x) simp_all
  then show ?case
    by (auto simp: Cons.IH option.map_comp split: option.split)
qed

lemma register_handles_collisions:
  "h \<in> set (lookup_collisions (register_handles i cs k)) \<longleftrightarrow>
     h \<in> set (lookup_collisions k)
   \<or> (if map_of (lookup_handlers k) h = None then 1 < count_list (map handle cs) h
      else h \<in> set (map handle cs))"
proof (induction cs arbitrary: i k)
  case Nil
  then show ?case by simp
next
  case (Cons c cs)
  have "0 < count_list (map handle cs) h \<longleftrightarrow> h \<in> handle ` set cs"
    by (metis count_list_0_iff image_set neq0_conv)
  then show ?case
    by (auto simp: Cons.IH)
qed

lemma bootstrap_lookup:
  "map_of (lookup_handlers (eng_keeper (bootstrap cs))) h = first_index h (map handle cs)"
  by (cases "first_index h (map handle cs)") (simp_all add: bootstrap_def register_handles_lookup)

lemma bootstrap_collisions:
  "h \<in> set (lookup_collisions (eng_keeper (bootstrap cs))) \<longleftrightarrow> repeated (map handle cs) h"
  by (simp add: bootstrap_def register_handles_collisions repeated_def)

text \<open>A keeper that knows a list of handles; every phase keeps it for the handles it started with.\<close>

definition knows :: "keeper \<Rightarrow> string list \<Rightarrow> bool" where
  "knows k hs \<longleftrightarrow>
     (\<forall>h. map_of (lookup_handlers k) h = first_index h hs)
   \<and> (\<forall>h. h \<in> set (lookup_collisions k) \<longleftrightarrow> repeated hs h)"

lemma knows_bootstrap: "knows (eng_keeper (bootstrap cs)) (map handle cs)"
  by (simp add: knows_def bootstrap_lookup bootstrap_collisions)

lemma repeated_unique:
  assumes "\<not> repeated hs h" and "i < length hs" "j < length hs" "hs ! i = h" "hs ! j = h"
  shows "i = j"
proof (rule ccontr)
  assume "i \<noteq> j"
  then have "{i, j} \<subseteq> {k. k < length hs \<and> hs ! k = h}" "card {i, j} = 2"
    using assms by auto
  moreover have "count_list hs h = card {k. k < length hs \<and> hs ! k = h}"
    by (simp add: count_list_eq_length_filter length_filter_conv_card eq_commute)
  ultimately show False
    using assms(1) card_mono [of "{k. k < length hs \<and> hs ! k = h}" "{i, j}"]
    by (simp add: repeated_def)
qed

section \<open>Facts: injected names\<close>

lemma resolve_injections_Ok:
  "resolve_injections k kept c hs = Ok ts \<longleftrightarrow>
     (\<forall>(h, env) \<in> set hs. h \<notin> set (lookup_collisions k)
        \<and> (\<exists>i. map_of (lookup_handlers k) h = Some i \<and> i < length kept))
   \<and> ts = map (\<lambda>(h, env). (env, container_name (kept ! the (map_of (lookup_handlers k) h)))) hs"
proof (induction hs arbitrary: ts)
  case Nil
  then show ?case by auto
next
  case (Cons x hs)
  obtain h env where x: "x = (h, env)" by (cases x)
  show ?case
  proof (cases "resolve_injections k kept c hs")
    case (Ok r)
    with Cons.IH [of r] x show ?thesis
      by (auto split: option.splits)
  next
    case (Err e)
    then have "resolve_injections k kept c hs \<noteq> Ok ts'" for ts' by simp
    with Err Cons.IH x show ?thesis
      by (auto split: option.splits)
  next
    case (Panic p)
    then have "resolve_injections k kept c hs \<noteq> Ok ts'" for ts' by simp
    with Panic Cons.IH x show ?thesis
      by (auto split: option.splits)
  qed
qed

lemma resolve_injections_no_panic:
  "(\<And>h i. map_of (lookup_handlers k) h = Some i \<Longrightarrow> i < length kept) \<Longrightarrow>
   resolve_injections k kept c hs \<noteq> Panic p"
  by (induction k kept c hs arbitrary: p rule: resolve_injections.induct)
     (auto split: option.splits result.splits)

lemma resolve_all_injections_Ok:
  "resolve_all_injections k kept cs = Ok tss \<longleftrightarrow>
     list_all2 (\<lambda>c ts. resolve_injections k kept c (inject_container_name_env c) = Ok ts) cs tss"
proof (induction cs arbitrary: tss)
  case Nil
  then show ?case by auto
next
  case (Cons c cs)
  show ?case
  proof (cases "resolve_all_injections k kept cs")
    case (Ok r)
    have "tss' = r" if "resolve_all_injections k kept cs = Ok tss'" for tss'
      using that Ok by simp
    with Ok Cons.IH show ?thesis
      by (auto simp: list_all2_Cons1 split: result.splits)
  next
    case (Err e)
    then have "resolve_all_injections k kept cs \<noteq> Ok ts'" for ts' by simp
    with Err Cons.IH show ?thesis
      by (auto simp: list_all2_Cons1 split: result.splits)
  next
    case (Panic p)
    then have "resolve_all_injections k kept cs \<noteq> Ok ts'" for ts' by simp
    with Panic Cons.IH show ?thesis
      by (auto simp: list_all2_Cons1 split: result.splits)
  qed
qed

lemma resolve_all_no_panic:
  "(\<And>h i. map_of (lookup_handlers k) h = Some i \<Longrightarrow> i < length kept) \<Longrightarrow>
   resolve_all_injections k kept cs \<noteq> Panic p"
  by (induction cs arbitrary: p)
     (auto simp: resolve_injections_no_panic split: result.splits)

lemma map_of_injected:
  "map_of (fold (\<lambda>(env, name) m. AList.update env name m) ts m) key =
     (case map_of (rev ts) key of Some n \<Rightarrow> Some n | None \<Rightarrow> map_of m key)"
  by (induction ts arbitrary: m) (auto simp: map_add_def split: option.split)

lemma generate_random_string_total:
  "\<exists>str s'. generate_random_string d n s = (Ok str :: ('e, string) result, s') \<and> length str = n
     \<and> calls s' = calls s \<and> registries s' = registries s"
proof (induction n arbitrary: s)
  case 0
  then show ?case by (simp add: ret_defs)
next
  case (Suc n)
  obtain x w where "random_range d 97 122 (world s) = (x, w)"
    by (cases "random_range d 97 122 (world s)")
  then have t: "in_world (random_range d 97 122) s = (Ok x :: ('e, nat) result, s\<lparr>world := w\<rparr>)"
    by (simp add: in_world_def)
  obtain str s' where "generate_random_string d n (s\<lparr>world := w\<rparr>) = (Ok str :: ('e, string) result, s')"
    "length str = n" "calls s' = calls (s\<lparr>world := w\<rparr>)" "registries s' = registries (s\<lparr>world := w\<rparr>)"
    using Suc by blast
  with t show ?case by (auto simp: ret_defs)
qed

lemma configure_names_total:
  "\<exists>ks s'. configure_names d ns cs s = (Ok ks :: ('e, composition list) result, s')
     \<and> calls s' = calls s \<and> registries s' = registries s
     \<and> list_all2 (\<lambda>c k. \<exists>sfx. length sfx = 20 \<and> k = configure_container_name ns sfx c) cs ks"
proof (induction cs arbitrary: s)
  case Nil
  then show ?case by (simp add: ret_defs)
next
  case (Cons c cs)
  obtain str t where t: "generate_random_string d 20 s = (Ok str :: ('e, string) result, t)"
    "length str = 20" "calls t = calls s" "registries t = registries s"
    using generate_random_string_total by blast
  obtain ks s' where "configure_names d ns cs t = (Ok ks :: ('e, composition list) result, s')"
    "calls s' = calls t" "registries s' = registries t"
    "list_all2 (\<lambda>c k. \<exists>sfx. length sfx = 20 \<and> k = configure_container_name ns sfx c) cs ks"
    using Cons by blast
  with t show ?case by (auto simp: ret_defs)
qed

lemma resolve_final_Ok:
  assumes "resolve_final_container_name d ns e s = (Ok e' :: ('e, composition list engine) result, s')"
  shows "eng_keeper e' = eng_keeper e
    \<and> list_all2 (\<lambda>c k. \<exists>sfx. length sfx = 20 \<and> k = configure_container_name ns sfx c)
        (eng_phase e) (eng_phase e')"
proof -
  obtain ks t where "configure_names d ns (eng_phase e) s = (Ok ks :: ('e, composition list) result, t)"
    "list_all2 (\<lambda>c k. \<exists>sfx. length sfx = 20 \<and> k = configure_container_name ns sfx c) (eng_phase e) ks"
    using configure_names_total by blast
  with assms show ?thesis by (auto simp: resolve_final_container_name_def ret_defs)
qed

lemma configured_fields:
  assumes "list_all2 (\<lambda>c k. \<exists>sfx. length sfx = 20 \<and> k = configure_container_name ns sfx c) cs ks"
  shows "map handle ks = map handle cs"
    and "map inject_container_name_env ks = map inject_container_name_env cs"
    and "map comp_env ks = map comp_env cs" and "length ks = length cs"
  using assms by (induction rule: list_all2_induct) auto

text \<open>With the keeper of handles \<open>hs\<close>: what injecting by handle resolves to, and when it succeeds.\<close>

definition targets :: "composition list \<Rightarrow> string list \<Rightarrow> (string \<times> string) list \<Rightarrow> (string \<times> string) list" where
  "targets kept hs injections =
     map (\<lambda>(h, env). (env, container_name (kept ! the (first_index h hs)))) injections"

abbreviation unambiguous :: "string list \<Rightarrow> (string \<times> string) list \<Rightarrow> bool" where
  "unambiguous hs injections \<equiv> \<forall>(h, env) \<in> set injections. count_list hs h = 1"

lemma resolve_injections_unique:
  assumes "knows k hs" and "length kept = length hs"
  shows "resolve_injections k kept c injections = Ok ts \<longleftrightarrow>
     unambiguous hs injections \<and> ts = targets kept hs injections"
proof -
  have good: "\<not> 1 < count_list hs h \<and> (\<exists>i. first_index h hs = Some i \<and> i < length hs) \<longleftrightarrow> count_list hs h = 1" for h
  proof -
    have "first_index h hs \<noteq> None \<longleftrightarrow> 0 < count_list hs h"
      using count_list_0_iff [of hs h] by (auto simp: first_index_None simp flip: neq0_conv)
    moreover have "first_index h hs = Some i \<Longrightarrow> i < length hs" for i
      using first_index_Some [of h hs i] by simp
    ultimately show ?thesis by auto
  qed
  show ?thesis
    using assms by (simp add: resolve_injections_Ok knows_def repeated_def targets_def good [simplified])
qed

lemma resolve_all_unique:
  assumes "knows k hs" and "length kept = length hs"
  shows "resolve_all_injections k kept cs = Ok tss \<longleftrightarrow>
     (\<forall>c \<in> set cs. unambiguous hs (inject_container_name_env c))
   \<and> tss = map (\<lambda>c. targets kept hs (inject_container_name_env c)) cs"
proof -
  have "list_all2 (\<lambda>c ts. unambiguous hs (inject_container_name_env c)
      \<and> ts = targets kept hs (inject_container_name_env c)) cs tss
    \<longleftrightarrow> (\<forall>c \<in> set cs. unambiguous hs (inject_container_name_env c))
      \<and> tss = map (\<lambda>c. targets kept hs (inject_container_name_env c)) cs"
    by (induction cs arbitrary: tss) (auto simp: list_all2_Cons1)
  then show ?thesis
    unfolding resolve_all_injections_Ok resolve_injections_unique [OF assms] .
qed

lemma injected_value:
  "map_of (comp_env (inject_env c (targets kept hs injections))) key =
     (case map_of (rev (map prod.swap injections)) key of
        Some h \<Rightarrow> Some (container_name (kept ! the (first_index h hs)))
      | None \<Rightarrow> map_of (comp_env c) key)"
proof -
  have "map_of (rev (targets kept hs injections)) key = map_option
      (\<lambda>h. container_name (kept ! the (first_index h hs))) (map_of (rev (map prod.swap injections)) key)"
    using map_of_map [of "\<lambda>h. container_name (kept ! the (first_index h hs))" "rev (map prod.swap injections)"]
    by (simp add: targets_def rev_map comp_def case_prod_beta' fun_eq_iff)
  then show ?thesis by (simp add: inject_env_def map_of_injected split: option.split)
qed

section \<open>Properties\<close>

text \<open>
  The keeper built at bootstrap knows every handle at the index of the first composition that has
  it, knows no other handle, and marks as collisions exactly the handles of several compositions.
\<close>

theorem bootstrap_handles:
  "(map_of (lookup_handlers (eng_keeper (bootstrap cs))) h = None \<longleftrightarrow> h \<notin> handle ` set cs)
   \<and> (map_of (lookup_handlers (eng_keeper (bootstrap cs))) h = Some i \<longleftrightarrow>
        i < length cs \<and> handle (cs ! i) = h \<and> (\<forall>j < i. handle (cs ! j) \<noteq> h))
   \<and> (h \<in> set (lookup_collisions (eng_keeper (bootstrap cs))) \<longleftrightarrow> 1 < count_list (map handle cs) h)"
proof -
  have "first_index h (map handle cs) = Some i"
    if "i < length cs" "handle (cs ! i) = h" "\<forall>j < i. handle (cs ! j) \<noteq> h"
  proof (cases "first_index h (map handle cs)")
    case None
    with that show ?thesis by (auto simp: first_index_None)
  next
    case (Some j)
    then have "j < length cs" "handle (cs ! j) = h" "\<forall>k < j. handle (cs ! k) \<noteq> h"
      using first_index_Some [OF Some] by auto
    with that Some show ?thesis by (metis nat_neq_iff)
  qed
  moreover have "first_index h (map handle cs) = Some i \<Longrightarrow>
      i < length cs \<and> handle (cs ! i) = h \<and> (\<forall>j < i. handle (cs ! j) \<noteq> h)"
    by (drule first_index_Some) auto
  ultimately show ?thesis
    by (auto simp: bootstrap_lookup bootstrap_collisions repeated_def first_index_None)
qed

text \<open>
  C7: injecting container names never panics and fails exactly when some composition names a handle
  that does not exist or belongs to several compositions; otherwise, in every composition, an
  environment variable that was asked for holds the final container name of the one composition with
  the handle (the last one asked for, if the variable was named twice), and every other variable is
  as configured.
\<close>

theorem injected_environment:
  assumes "resolve_final_container_name d ns (bootstrap cs) s = (Ok e, s')"
  shows "case resolve_inject_container_name_env e of
      Panic p \<Rightarrow> False
    | Err x \<Rightarrow> \<exists>c \<in> set cs. \<exists>(h, env) \<in> set (inject_container_name_env c). count_list (map handle cs) h \<noteq> 1
    | Ok e' \<Rightarrow>
        (\<forall>c \<in> set cs. \<forall>(h, env) \<in> set (inject_container_name_env c). count_list (map handle cs) h = 1)
      \<and> length (eng_phase e') = length cs
      \<and> (\<forall>i < length cs. \<forall>key. map_of (comp_env (eng_phase e' ! i)) key =
          (case map_of (rev (map prod.swap (inject_container_name_env (cs ! i)))) key of
             Some h \<Rightarrow> Some (container_name (eng_phase e ! the (first_index h (map handle cs))))
           | None \<Rightarrow> map_of (comp_env (cs ! i)) key))"
proof -
  let ?hs = "map handle cs"
  have fin: "eng_keeper e = eng_keeper (bootstrap cs)"
    "list_all2 (\<lambda>c k. \<exists>sfx. length sfx = 20 \<and> k = configure_container_name ns sfx c) cs (eng_phase e)"
    using resolve_final_Ok [OF assms] by (simp_all add: bootstrap_def)
  note f = configured_fields [OF fin(2)]
  have k: "knows (eng_keeper e) ?hs" and len: "length (eng_phase e) = length ?hs"
    using f(4) knows_bootstrap [of cs] by (simp_all add: fin(1))
  have all: "(\<forall>c \<in> set (eng_phase e). unambiguous ?hs (inject_container_name_env c))
      \<longleftrightarrow> (\<forall>c \<in> set cs. unambiguous ?hs (inject_container_name_env c))"
    using arg_cong [OF f(2), of "\<lambda>xs. \<forall>x \<in> set xs. unambiguous ?hs x"] by simp
  note iff = resolve_all_unique [OF k len, of "eng_phase e"]
  show ?thesis
  proof (cases "resolve_all_injections (eng_keeper e) (eng_phase e) (eng_phase e)")
    case (Ok tss)
    with iff all have tss: "\<forall>c \<in> set cs. unambiguous ?hs (inject_container_name_env c)"
      "tss = map (\<lambda>c. targets (eng_phase e) ?hs (inject_container_name_env c)) (eng_phase e)"
      by blast+
    have "inject_container_name_env (eng_phase e ! i) = inject_container_name_env (cs ! i)"
      "comp_env (eng_phase e ! i) = comp_env (cs ! i)" if "i < length cs" for i
      using f that by (metis nth_map)+
    with Ok tss f(4) show ?thesis
      by (simp add: resolve_inject_container_name_env_def injected_value cong: option.case_cong)
  next
    case (Err x)
    with iff [of "map (\<lambda>c. targets (eng_phase e) ?hs (inject_container_name_env c)) (eng_phase e)"]
    have "\<not> (\<forall>c \<in> set (eng_phase e). unambiguous ?hs (inject_container_name_env c))" by simp
    then have "\<not> (\<forall>c \<in> set cs. unambiguous ?hs (inject_container_name_env c))" unfolding all .
    then have "\<exists>c \<in> set cs. \<exists>(h, env) \<in> set (inject_container_name_env c). count_list ?hs h \<noteq> 1" by fastforce
    with Err show ?thesis by (simp add: resolve_inject_container_name_env_def)
  next
    case (Panic p)
    have "map_of (lookup_handlers (eng_keeper e)) h = Some i \<Longrightarrow> i < length (eng_phase e)" for h i
      using first_index_Some [of h ?hs i] k len by (simp add: knows_def)
    with Panic resolve_all_no_panic show ?thesis by blast
  qed
qed

end
