(* ===== verification/Scoped_Networks.thy ===== *)
theory Scoped_Networks
  imports Registry
begin

text \<open>
  \<open>src/static_container/network.rs\<close>: the singular network that all tests of a namespace share, as a
  registry of the outcome of its first creation.
\<close>

section \<open>Operations\<close>

definition SINGULAR_NETWORK_NAME :: string where
  "SINGULAR_NETWORK_NAME = ''dockertest''"

definition scoped_name :: "string \<Rightarrow> string" where
  "scoped_name namespace = namespace @ ''-'' @ SINGULAR_NETWORK_NAME"

definition insert_singular :: "string \<Rightarrow> network_creation \<Rightarrow> ('w sys, 'e, unit) action" where
  "insert_singular namespace st = modify (\<lambda>s. s\<lparr>singular := AList.update namespace st (singular s)\<rparr>)"

definition connect_singular ::
  "'w bollard \<Rightarrow> string option \<Rightarrow> string \<Rightarrow> string \<Rightarrow> ('w sys, docker_test_error, string) action" where
  "connect_singular d self_container namespace i =
     bindR (case self_container of
              Some cid \<Rightarrow>
                matchR (add_self_to_network d cid i) returnR
                  (\<lambda>e. bindR (insert_singular namespace NetFailed) (\<lambda>_. failR e))
            | None \<Rightarrow> returnR ()) (\<lambda>_.
     bindR (insert_singular namespace (NetComplete i)) (\<lambda>_. returnR i))"

definition create_singular_network ::
  "'w bollard \<Rightarrow> string option \<Rightarrow> string \<Rightarrow> ('w sys, docker_test_error, string) action" where
  "create_singular_network d self_container namespace = reads singular (\<lambda>networks.
     case map_of networks namespace of
       Some NetFailed \<Rightarrow> failR (Startup ''failed to create singular network'')
     | Some (NetComplete i) \<Rightarrow> returnR i
     | None \<Rightarrow>
         bindR (existing_dockertest_network d (scoped_name namespace)) (\<lambda>existing.
         case existing of
           Some i \<Rightarrow> bindR (insert_singular namespace (NetComplete i)) (\<lambda>_. returnR i)
         | None \<Rightarrow>
             bindR (matchR (create_singular_network_impl d (scoped_name namespace)) returnR
                      (\<lambda>e. bindR (insert_singular namespace NetFailed) (\<lambda>_. failR e)))
               (connect_singular d self_container namespace)))"

section \<open>Facts\<close>

definition network_present :: "'w sys \<Rightarrow> string \<Rightarrow> bool" where
  "network_present s namespace \<longleftrightarrow> map_of (singular s) namespace \<noteq> None"

definition creates_network :: "string \<Rightarrow> request \<Rightarrow> bool" where
  "creates_network namespace r \<longleftrightarrow> r = CreateNetwork (scoped_name namespace)"

lemma scoped_name_inj: "scoped_name a = scoped_name b \<longleftrightarrow> a = b"
  by (simp add: scoped_name_def)

lemma insert_singular_eq [simp]:
  "insert_singular n st s = (Ok (), s\<lparr>singular := AList.update n st (singular s)\<rparr>)"
  by (simp add: insert_singular_def modify_def)

lemma issues_insert_singular: "issues R (insert_singular n st)"
  unfolding insert_singular_def by (intro issues_rules) simp

lemma issues_connect_singular:
  "(\<And>n i. R (ConnectNetwork n i)) \<Longrightarrow> issues R (connect_singular d self n i)"
  unfolding connect_singular_def
  by (intro issues_rules issues_insert_singular)
     (auto intro!: issues_rules issues_networks issues_insert_singular split: option.split)

lemma issues_create_singular:
  assumes "R (ListNetworks (scoped_name n))" and "R (CreateNetwork (scoped_name n))"
    and "\<And>n i. R (ConnectNetwork n i)"
  shows "issues R (create_singular_network d self n)"
  unfolding create_singular_network_def
  by (intro issues_rules issues_networks issues_insert_singular issues_connect_singular assms)
     (auto intro!: issues_rules issues_networks issues_insert_singular issues_connect_singular assms
        split: option.split network_creation.split)

lemma creates_singular_impl:
  "adds (creates_network n) (Suc 0 + 0) (create_singular_network_impl d (scoped_name n))"
  unfolding create_singular_network_impl_def unwrap_none_def
  by (intro adds_match adds_issue)
     (auto intro!: adds_none issues_rules issues_networks simp: creates_network_def
        split: b_error.split option.split)

text \<open>The branch that creates the network, named for the proofs.\<close>

definition first_singular ::
  "'w bollard \<Rightarrow> string option \<Rightarrow> string \<Rightarrow> ('w sys, docker_test_error, string) action" where
  "first_singular d self n = bindR
     (matchR (create_singular_network_impl d (scoped_name n)) returnR
        (\<lambda>e. bindR (insert_singular n NetFailed) (\<lambda>_. failR e)))
     (connect_singular d self n)"

lemma create_singular_network_first:
  "create_singular_network d self n = reads singular (\<lambda>networks.
     case map_of networks n of
       Some NetFailed \<Rightarrow> failR (Startup ''failed to create singular network'')
     | Some (NetComplete i) \<Rightarrow> returnR i
     | None \<Rightarrow>
         bindR (existing_dockertest_network d (scoped_name n)) (\<lambda>existing.
         case existing of
           Some i \<Rightarrow> bindR (insert_singular n (NetComplete i)) (\<lambda>_. returnR i)
         | None \<Rightarrow> first_singular d self n))"
  unfolding create_singular_network_def first_singular_def by (rule refl)

lemma creates_first_singular: "adds (creates_network n) 1 (first_singular d self n)"
proof -
  have "adds (creates_network n) ((Suc 0 + 0) + 0 + 0) (first_singular d self n)"
    unfolding first_singular_def
    by (intro adds_bind adds_match creates_singular_impl)
       (auto intro!: adds_none issues_rules issues_insert_singular issues_connect_singular
          simp: creates_network_def)
  then show ?thesis by simp
qed

lemma connect_singular_effect:
  assumes "connect_singular d self n i s = (r, s')"
  shows "singular s' = AList.update n (NetComplete i) (singular s) \<and> r = Ok i
    \<or> (\<exists>e. singular s' = AList.update n NetFailed (singular s) \<and> r = Err e)"
proof (cases self)
  case None
  with assms show ?thesis by (auto simp: connect_singular_def ret_defs)
next
  case (Some cid)
  obtain x t where x: "add_self_to_network d cid i s = (x, t)" by (cases "add_self_to_network d cid i s")
  have "singular t = singular s" using same_networks(2) x by (rule within_same) simp
  moreover have "\<And>p. x \<noteq> Panic p"
    using x by (auto simp: add_self_to_network_def map_err_issue split: sum.splits)
  ultimately show ?thesis
    using assms Some x by (cases x) (auto simp: connect_singular_def ret_defs)
qed

lemma first_singular_effect:
  assumes "first_singular d self n s = (r, s')"
  shows "case r of
      Ok i \<Rightarrow> singular s' = AList.update n (NetComplete i) (singular s)
    | Err e \<Rightarrow> singular s' = AList.update n NetFailed (singular s)
    | Panic p \<Rightarrow> singular s' = singular s"
proof -
  obtain x t where x: "create_singular_network_impl d (scoped_name n) s = (x, t)"
    by (cases "create_singular_network_impl d (scoped_name n) s")
  have "singular t = singular s" using same_networks(4) x by (rule within_same) simp
  with assms x show ?thesis
    by (cases x) (auto simp: first_singular_def ret_defs dest!: connect_singular_effect)
qed

definition listing_failed :: "'w bollard \<Rightarrow> string \<Rightarrow> 'w sys \<Rightarrow> bool" where
  "listing_failed d n s \<longleftrightarrow> (\<exists>e. fst (b_list_networks d (scoped_name n) (world s)) = Inl e)"

lemma latest_network_no_error: "latest_network nw ns h i s \<noteq> (Err e, t)"
proof (induction ns arbitrary: h i)
  case (Cons n ns)
  then show ?case
    by (cases h; cases "ni_created n"; cases "ni_id n") (simp_all add: ret_defs unwrap_none_def)
qed (simp add: ret_defs)

lemma existing_network_effect:
  assumes "existing_dockertest_network d (scoped_name n) s = (x, t)"
  shows "singular t = singular s" and "calls t = calls s @ [ListNetworks (scoped_name n)]"
    and "listing_failed d n s \<longleftrightarrow> (\<exists>e. x = Err e)"
proof -
  show "singular t = singular s" using same_networks(1) assms by (rule within_same) simp
  have "calls (snd (existing_dockertest_network d (scoped_name n) s)) = calls s @ [ListNetworks (scoped_name n)]"
    by (simp add: existing_dockertest_network_def bindR_def matchR_def map_err_issue failR_def
        latest_network_pure split: sum.split)
  with assms show "calls t = calls s @ [ListNetworks (scoped_name n)]" by simp
  show "listing_failed d n s \<longleftrightarrow> (\<exists>e. x = Err e)"
    using assms
    by (cases "fst (b_list_networks d (scoped_name n) (world s))")
       (auto simp: existing_dockertest_network_def bindR_def matchR_def map_err_issue failR_def listing_failed_def
         latest_network_no_error)
qed

lemma create_singular_cases:
  assumes "create_singular_network d self n s = (r, s')" and "map_of (singular s) n = None"
  obtains i where "r = Ok i" "singular s' = AList.update n (NetComplete i) (singular s)"
      "calls s' = calls s @ [ListNetworks (scoped_name n)]"
  | t where "singular t = singular s" "calls t = calls s @ [ListNetworks (scoped_name n)]"
      "first_singular d self n t = (r, s')" "\<not> listing_failed d n s"
  | "\<And>i. r \<noteq> Ok i" "singular s' = singular s" "calls s' = calls s @ [ListNetworks (scoped_name n)]"
      "listing_failed d n s \<longleftrightarrow> (\<exists>e. r = Err e)"
proof -
  obtain x t where x: "existing_dockertest_network d (scoped_name n) s = (x, t)"
    by (cases "existing_dockertest_network d (scoped_name n) s")
  note t = existing_network_effect [OF x]
  show thesis
  proof (cases x)
    case (Ok y)
    with x t assms that(1,2) show thesis
      by (cases y) (auto simp: create_singular_network_first reads_def ret_defs)
  next
    case (Err e)
    with x t assms that(3) show thesis
      by (auto simp: create_singular_network_first reads_def)
  next
    case (Panic p)
    with x t assms that(3) show thesis
      by (auto simp: create_singular_network_first reads_def)
  qed
qed

text \<open>Once a namespace has an outcome it is final: the answer is read from the registry.\<close>

lemma create_singular_present:
  assumes "map_of (singular s) n = Some st"
  shows "create_singular_network d self n s =
    (case st of NetFailed \<Rightarrow> Err (Startup ''failed to create singular network'') | NetComplete i \<Rightarrow> Ok i, s)"
  using assms by (cases st) (simp_all add: create_singular_network_def reads_def ret_defs)

lemma create_singular_keeps_present:
  assumes o: "create_singular_network d self k s = (r, s')" and m: "network_present s m"
  shows "network_present s' m"
proof (cases "map_of (singular s) k")
  case (Some st)
  with create_singular_present [OF Some] o m show ?thesis by simp
next
  case None
  with o show ?thesis
  proof (cases rule: create_singular_cases)
    case (2 t)
    with first_singular_effect [OF 2(3)] m show ?thesis
      by (cases r) (auto simp: network_present_def)
  qed (use m in \<open>auto simp: network_present_def\<close>)
qed

lemma create_singular_present_same:
  assumes "create_singular_network d self k s = (r, s')" and "network_present s k"
  shows "s' = s"
  using assms by (auto simp: network_present_def create_singular_present)

lemma create_singular_creates_one:
  assumes o: "create_singular_network d self k s = (r, s')"
  shows "\<exists>rs. calls s' = calls s @ rs \<and> length (filter (creates_network k) rs) \<le> 1
      \<and> (filter (creates_network k) rs \<noteq> [] \<longrightarrow> (\<forall>p. r \<noteq> Panic p) \<longrightarrow> network_present s' k)"
proof (cases "map_of (singular s) k")
  case (Some st)
  with create_singular_present_same [OF o] show ?thesis by (simp add: network_present_def)
next
  case None
  with o show ?thesis
  proof (cases rule: create_singular_cases)
    case (2 t)
    obtain rs where "calls s' = calls t @ rs" "length (filter (creates_network k) rs) \<le> 1"
      using addsD [OF creates_first_singular 2(3)] by blast
    moreover have "(\<forall>p. r \<noteq> Panic p) \<longrightarrow> network_present s' k"
      using first_singular_effect [OF 2(3)] by (cases r) (auto simp: network_present_def)
    ultimately show ?thesis using 2(2) by (simp add: creates_network_def)
  qed (auto simp: creates_network_def)
qed

lemma create_singular_creates_none:
  assumes o: "create_singular_network d self k s = (r, s')" and n: "network_present s n \<or> n \<noteq> k"
  shows "\<exists>rs. calls s' = calls s @ rs \<and> filter (creates_network n) rs = []"
proof (cases "n = k")
  case True
  with create_singular_present_same [OF o] n show ?thesis by simp
next
  case False
  then have "extends (\<lambda>r. \<not> creates_network n r) s s'"
    using issues_create_singular [of "\<lambda>r. \<not> creates_network n r" k d self] o
    by (auto simp: creates_network_def scoped_name_inj dest: withinD)
  then show ?thesis by (auto simp: extends_def list_all_iff)
qed

lemmas create_singular_once =
  create_singular_keeps_present create_singular_creates_none create_singular_creates_one

interpretation scoped: create_once "\<lambda>(self, n). create_singular_network d self n"
  snd network_present creates_network for d :: "'w bollard"
  by unfold_locales (simp only: split_paired_all prod.case snd_conv; rule create_singular_once; assumption)+

section \<open>Properties\<close>

text \<open>
  C17: over any interleaving of the calls of concurrent tests of one process, none of which panics, the
  network that the tests of a namespace share is asked for at most once, and not at all when its
  outcome is already known. The documentation of \<open>Network::Singular\<close> still says that no lock is taken
  and that tests in parallel may create several networks; the write lock of \<open>create_singular_network\<close>
  excludes it within a process.
\<close>

theorem singular_network_once:
  assumes "registry_run (\<lambda>(self, n). create_singular_network d self n) network_present creates_network s u"
  shows "created_count (creates_network n) u
    \<le> created_count (creates_network n) s + (if network_present s n then 0 else 1)"
  using assms by (rule scoped.at_most_once)

text \<open>
  C28: the outcome of the first creation is final for the namespace: after a call that did not panic,
  an identifier it returned is what every later call returns, and after an error every later call
  fails; later calls contact nobody. The one exception is an error of the listing that comes before the
  creation: then nothing else was asked for and nothing is recorded, so the next call tries again.
\<close>

theorem singular_network_final:
  assumes "create_singular_network d self n s = (r, s')"
  shows "case r of
      Ok i \<Rightarrow> create_singular_network d self' n s' = (Ok i, s')
    | Err e \<Rightarrow>
        if map_of (singular s) n = None \<and> listing_failed d n s
        then singular s' = singular s \<and> calls s' = calls s @ [ListNetworks (scoped_name n)]
        else create_singular_network d self' n s'
            = (Err (Startup ''failed to create singular network''), s')
    | Panic p \<Rightarrow> singular s' = singular s"
proof (cases "map_of (singular s) n")
  case (Some st)
  with assms show ?thesis by (cases st) (auto simp: create_singular_present)
next
  case None
  with assms show ?thesis
  proof (cases rule: create_singular_cases)
    case (1 i)
    then show ?thesis by (simp add: create_singular_present)
  next
    case (2 t)
    with first_singular_effect [OF 2(3)] show ?thesis
      by (cases r) (auto simp: create_singular_present)
  next
    case 3
    with None show ?thesis by (cases r) auto
  qed
qed

end
