(* ===== verification/Runner.thy ===== *)
theory Runner
  imports Engine Scoped_Networks
begin

text \<open>
  \<open>src/runner.rs\<close> and the running of a test in \<open>src/dockertest.rs\<close>: the whole life of one test, from
  the configuration to the teardown that its prune strategy asks for. The test body is a parameter:
  an action that finishes, is cancelled (an error) or panics.
\<close>

section \<open>The runner\<close>

record runner =
  r_config :: docker_test
  r_named_volumes :: "string list"
  r_network :: string
  r_id :: string

datatype prune_strategy = RunningRegardless | RunningOnFailure | StopOnFailure | RemoveRegardless

definition own_container_id :: "'w bollard \<Rightarrow> string option" where
  "own_container_id d = env_var d ''DOCKERTEST_CONTAINER_ID_INJECT_TO_NETWORK''"

text \<open>
  Only ASCII letters have a lower case among the letters of the four words, so \<open>to_lowercase\<close> is the
  ASCII one here.
\<close>

definition env_prune_strategy :: "'w bollard \<Rightarrow> prune_strategy" where
  "env_prune_strategy d =
     (case getenv d ''DOCKERTEST_PRUNE'' of
        Some val \<Rightarrow>
          (let v = ascii_lower (utf8_lossy val) in
           if v = ''stop_on_failure'' then StopOnFailure
           else if v = ''never'' then RunningRegardless
           else if v = ''running_on_failure'' then RunningOnFailure
           else if v = ''always'' then RemoveRegardless
           else RemoveRegardless)
      | None \<Rightarrow> RemoveRegardless)"

definition Runner_try_new :: "'w bollard \<Rightarrow> docker_test \<Rightarrow> ('w sys, docker_test_error, runner) action" where
  "Runner_try_new d config =
     bindR (generate_random_string d 20) (\<lambda>i.
     bindR (case dt_network config of
              ExternalNet n \<Rightarrow> returnR n
            | Isolated \<Rightarrow> returnR (''dockertest-rs-'' @ i)
            | Singular \<Rightarrow> create_singular_network d (own_container_id d) (dt_namespace config)) (\<lambda>network.
     returnR \<lparr>r_config = config, r_named_volumes = [], r_network = network, r_id = i\<rparr>))"

definition Runner_new :: "'w bollard \<Rightarrow> docker_test \<Rightarrow> ('w sys, docker_test_error, runner) action" where
  "Runner_new d config = unwrap_action (Runner_try_new d config)"

definition check_if_inside_container :: "'w bollard \<Rightarrow> runner \<Rightarrow> runner" where
  "check_if_inside_container d r =
     (case own_container_id d of
        Some i \<Rightarrow> r\<lparr>r_config := (r_config r)\<lparr>dt_container_id := Some i\<rparr>\<rparr>
      | None \<Rightarrow> r)"

definition resolve_network :: "'w bollard \<Rightarrow> runner \<Rightarrow> ('w sys, docker_test_error, unit) action" where
  "resolve_network d r =
     (case dt_network (r_config r) of
        Singular \<Rightarrow> returnR ()
      | ExternalNet _ \<Rightarrow> returnR ()
      | Isolated \<Rightarrow> create_network d (r_network r) (dt_container_id (r_config r)))"

text \<open>
  Named volumes: each gets the test's id as suffix, the same one wherever it is mentioned; the map
  remembers the suffixed names for the teardown.
\<close>

fun resolve_volumes ::
  "string \<Rightarrow> (string \<times> string) list \<Rightarrow> (string \<times> string) list \<Rightarrow> string list \<times> (string \<times> string) list" where
  "resolve_volumes sfx [] m = ([], m)"
| "resolve_volumes sfx ((v, path) # rest) m =
     (case map_of m v of
        Some suffixed_name \<Rightarrow>
          (case resolve_volumes sfx rest m of
             (names, m') \<Rightarrow> ((suffixed_name @ '':'' @ path) # names, m'))
      | None \<Rightarrow>
          (case resolve_volumes sfx rest (AList.update v (v @ ''-'' @ sfx) m) of
             (names, m') \<Rightarrow> ((v @ ''-'' @ sfx @ '':'' @ path) # names, m')))"

fun resolve_composition_volumes ::
  "string \<Rightarrow> composition list \<Rightarrow> (string \<times> string) list \<Rightarrow> composition list \<times> (string \<times> string) list" where
  "resolve_composition_volumes sfx [] m = ([], m)"
| "resolve_composition_volumes sfx (c # cs) m =
     (case resolve_volumes sfx (comp_named_volumes c) m of
        (names, m') \<Rightarrow>
          (case resolve_composition_volumes sfx cs m' of
             (cs', m'') \<Rightarrow> (c\<lparr>final_named_volume_names := names\<rparr> # cs', m'')))"

definition resolve_named_volumes :: "runner \<Rightarrow> runner" where
  "resolve_named_volumes r =
     (case resolve_composition_volumes (r_id r) (dt_compositions (r_config r)) [] of
        (cs, m) \<Rightarrow> r\<lparr>r_config := (r_config r)\<lparr>dt_compositions := cs\<rparr>, r_named_volumes := map snd m\<rparr>)"

definition teardown_network :: "'w bollard \<Rightarrow> runner \<Rightarrow> ('w sys, docker_test_error, unit) action" where
  "teardown_network d r =
     (case dt_network (r_config r) of
        Singular \<Rightarrow> returnR ()
      | ExternalNet _ \<Rightarrow> returnR ()
      | Isolated \<Rightarrow> delete_network d (r_network r) (dt_container_id (r_config r)))"

definition remove_everything ::
  "'w bollard \<Rightarrow> runner \<Rightarrow> debris engine \<Rightarrow> ('w sys, docker_test_error, unit) action" where
  "remove_everything d r e =
     bindR (remove_containers d (cleanup_containers e)) (\<lambda>_.
     bindR (teardown_network d r) (\<lambda>_.
     remove_volumes d (r_named_volumes r)))"

definition teardown ::
  "'w bollard \<Rightarrow> runner \<Rightarrow> debris engine \<Rightarrow> bool \<Rightarrow> ('w sys, docker_test_error, unit) action" where
  "teardown d r e test_failed =
     bindR (disconnect_static_containers d (r_network r) (dt_network (r_config r)) e) (\<lambda>_.
     case env_prune_strategy d of
       RunningRegardless \<Rightarrow> returnR ()
     | RunningOnFailure \<Rightarrow> if test_failed then returnR () else remove_everything d r e
     | StopOnFailure \<Rightarrow>
         if test_failed then
           bindR (stop_containers d (cleanup_containers e)) (\<lambda>_. teardown_network d r)
         else remove_everything d r e
     | RemoveRegardless \<Rightarrow> remove_everything d r e)"

section \<open>The handles of the test body\<close>

text \<open>What the body of a test gets: a clone of the engine.\<close>

type_synonym docker_operations = "orbiting_phase engine"

definition try_handle ::
  "docker_operations \<Rightarrow> string \<Rightarrow> (docker_test_error, operational_container) result" where
  "try_handle e h =
     (if handle_collision e h then
        Err (TestBody (''handle '' @ [CHR 0x27] @ h @ [CHR 0x27] @ '' defined multiple times''))
      else (case resolve_handle e h of
          Ok (Some r) \<Rightarrow> Ok r
        | Ok None \<Rightarrow> Err (TestBody (''container with handle '' @ [CHR 0x27] @ h @ [CHR 0x27] @ '' not found''))
        | Err x \<Rightarrow> Err x
        | Panic p \<Rightarrow> Panic p))"

definition operations_handle :: "docker_operations \<Rightarrow> string \<Rightarrow> (unit, operational_container) result" where
  "operations_handle e h =
     (case try_handle e h of
        Ok r \<Rightarrow> Ok r
      | Err x \<Rightarrow> Panic (display_error x)
      | Panic p \<Rightarrow> Panic p)"

definition operations_failure :: "string \<Rightarrow> ('s, 'e, unit) action" where
  "operations_failure msg = panicR (''test failure: '' @ msg)"

section \<open>Running a test\<close>

datatype body_outcome = BodyDone | BodyPanicked string | BodyCancelled

definition spawn_body :: "('s, unit, unit) action \<Rightarrow> ('s, 'e, body_outcome) action" where
  "spawn_body m = (\<lambda>s. case m s of
     (Ok _, s') \<Rightarrow> (Ok BodyDone, s')
   | (Err _, s') \<Rightarrow> (Ok BodyCancelled, s')
   | (Panic p, s') \<Rightarrow> (Ok (BodyPanicked p), s'))"

text \<open>\<open>errors.pop().expect(..)\<close>\<close>

definition fail_with_last :: "docker_test_error list \<Rightarrow> string \<Rightarrow> ('s, docker_test_error, 'a) action" where
  "fail_with_last errors msg = (if errors = [] then panicR msg else failR (last errors))"

text \<open>
  The cleanup after a failed creation or start. In the latter case the relaxed starts that have not
  run yet are detached tasks: they run, or not, while the logs are handled and the test is torn down,
  and nobody looks at their results.
\<close>

definition startup_failed ::
  "'w bollard \<Rightarrow> schedule \<Rightarrow> start_task list \<Rightarrow> runner \<Rightarrow> igniting_phase engine
   \<Rightarrow> ('w sys, docker_test_error, unit) action" where
  "startup_failed d schedule tasks r e =
     (let debris = decommission_igniting e in
      bindR (run_tasks d (before_startup_logs schedule) tasks) (\<lambda>tasks1.
      bindR (handle_startup_logs d (deb_kept (eng_phase debris)) []) (\<lambda>_.
      bindR (run_tasks d (before_teardown schedule) tasks1) (\<lambda>tasks2.
      bindR (teardown d r debris False) (\<lambda>_.
      bindR (run_tasks d (after_teardown schedule) tasks2) (\<lambda>_.
      returnR ()))))))"

definition run_body ::
  "'w bollard \<Rightarrow> runner \<Rightarrow> (docker_operations \<Rightarrow> ('w sys, unit, unit) action)
   \<Rightarrow> orbiting_phase engine \<Rightarrow> ('w sys, docker_test_error, unit) action" where
  "run_body d r test e =
     bindR (spawn_body (test e)) (\<lambda>result.
     let debris = decommission_orbiting e; failed = (result \<noteq> BodyDone) in
     bindR (handle_logs d failed (deb_kept (eng_phase debris)) []) (\<lambda>_.
     bindR (teardown d r debris failed) (\<lambda>_.
     case result of
       BodyDone \<Rightarrow> returnR ()
     | BodyPanicked p \<Rightarrow> panicR p
     | BodyCancelled \<Rightarrow> panicR ''test future cancelled'')))"

definition inspect_network_name :: "runner \<Rightarrow> string" where
  "inspect_network_name r =
     (case dt_network (r_config r) of
        Singular \<Rightarrow> scoped_name (dt_namespace (r_config r))
      | ExternalNet _ \<Rightarrow> r_network r
      | Isolated \<Rightarrow> r_network r)"

definition run_orbit ::
  "'w bollard \<Rightarrow> runner \<Rightarrow> (docker_operations \<Rightarrow> ('w sys, unit, unit) action)
   \<Rightarrow> orbiting_phase engine \<Rightarrow> ('w sys, docker_test_error, unit) action" where
  "run_orbit d r test e =
     bindR (inspect d (inspect_network_name r) e) (\<lambda>(e', errors).
     if errors \<noteq> [] then
       bindR (teardown d r (decommission_orbiting e') False) (\<lambda>_.
       fail_with_last errors ''dockertest bug: cleanup path expected container inspect error'')
     else run_body d r test e')"

definition run_containers ::
  "'w bollard \<Rightarrow> schedule \<Rightarrow> runner
   \<Rightarrow> (docker_operations \<Rightarrow> ('w sys, unit, unit) action)
   \<Rightarrow> fueling_phase engine \<Rightarrow> ('w sys, docker_test_error, unit) action" where
  "run_containers d schedule r test e =
     matchR (ignite d (r_network r) (dt_network (r_config r)) e)
       (\<lambda>ignited.
          matchR (orbiting d schedule ignited)
            (run_orbit d r test)
            (\<lambda>(failed, err, detached). bindR (startup_failed d schedule detached r failed) (\<lambda>_. failR err)))
       (\<lambda>failed. bindR (startup_failed d schedule [] r failed) (\<lambda>_.
          fail_with_last (creation_failures failed)
            ''dockertest bug: cleanup path expected container creation error''))"

definition run_impl ::
  "'w bollard \<Rightarrow> schedule \<Rightarrow> runner
   \<Rightarrow> (docker_operations \<Rightarrow> ('w sys, unit, unit) action)
   \<Rightarrow> ('w sys, docker_test_error, unit) action" where
  "run_impl d schedule r0 test =
     (let r1 = resolve_named_volumes (check_if_inside_container d r0);
          compositions = dt_compositions (r_config r1);
          r = r1\<lparr>r_config := (r_config r1)\<lparr>dt_compositions := []\<rparr>\<rparr> in
      bindR (resolve_final_container_name d (dt_namespace (r_config r)) (bootstrap compositions)) (\<lambda>e.
      case resolve_inject_container_name_env (fuel e) of
        Err err \<Rightarrow> failR err
      | Panic p \<Rightarrow> panicR p
      | Ok fueled \<Rightarrow>
          bindR (pull_images d (dt_default_source (r_config r)) fueled) (\<lambda>_.
          bindR (resolve_network d r) (\<lambda>_.
          run_containers d schedule r test fueled))))"

definition process_run :: "('s, docker_test_error, unit) action \<Rightarrow> ('s, 'e, unit) action" where
  "process_run m = matchR m returnR (\<lambda>e. panicR (display_error e))"

end
