(* ===== verification/Sample.thy ===== *)
theory Sample
  imports Waiting
begin

text \<open>
  A small concrete daemon, on which the witnesses evaluate the properties: every request succeeds,
  containers get consecutive identifiers, and every container is reported running with no address.
  A second one refuses to create containers.
\<close>

definition sample_id :: "nat \<Rightarrow> string" where
  "sample_id n = CHR ''c'' # replicate n (CHR ''x'')"

definition sample :: "nat bollard" where
  "sample =
     \<lparr>b_display = (\<lambda>e. case e of DockerResponseServerError _ m \<Rightarrow> m | OtherError m \<Rightarrow> m),
      b_debug = (\<lambda>e. case e of DockerResponseServerError _ m \<Rightarrow> m | OtherError m \<Rightarrow> m),
      b_inspect_container = (\<lambda>n w. (Inr \<lparr>ir_id = Some n, ir_state = Some (Some RUNNING),
        ir_network_settings = Some \<lparr>ns_networks = Some [], ns_ports = Some []\<rparr>\<rparr>, w)),
      b_create_container = (\<lambda>n b w. (Inr (sample_id w), Suc w)),
      b_start_container = (\<lambda>n w. (Inr (), w)),
      b_stop_container = (\<lambda>n w. (Inr (), w)),
      b_remove_container = (\<lambda>n a b w. (Inr (), w)),
      b_pause_container = (\<lambda>n w. (Inr (), w)),
      b_unpause_container = (\<lambda>n w. (Inr (), w)),
      b_kill_container = (\<lambda>n x w. (Inr (), w)),
      b_logs = (\<lambda>n a b c w. (\<lparr>ls_items = [(1, Inr (LogStdOut ''ready'')), (2, Inr (LogStdErr ''x''))],
        ls_closed = None\<rparr>, w)),
      b_create_network = (\<lambda>n w. (Inr ''net'', w)),
      b_remove_network = (\<lambda>n w. (Inr (), w)),
      b_list_networks = (\<lambda>n w. (Inr [], w)),
      b_connect_network = (\<lambda>n i w. (Inr (), w)),
      b_disconnect_network = (\<lambda>n i b w. (Inr (), w)),
      b_inspect_image = (\<lambda>r w. (Inr (Some ''sha''), w)),
      b_create_image = (\<lambda>r t c w. ([], w)),
      b_remove_volume = (\<lambda>v b w. (Inr (), w)),
      json_message = (\<lambda>m. Inr (Some m)),
      read_file = (\<lambda>p. None),
      login_entry = (\<lambda>p a. Err ()),
      base64_decode = (\<lambda>x. None),
      random_range = (\<lambda>lo hi w. (lo, w)),
      create_file = (\<lambda>p w. (Inr (), w)),
      write_sink = (\<lambda>k m w. (Inr (), w)),
      tick = (\<lambda>i k w. w),
      getenv = (\<lambda>v. None),
      join_order = (\<lambda>n w. []),
      custom_expected_state = (\<lambda>i. Running),
      custom_wait = (\<lambda>i. operational_from)\<rparr>"

lemma sample_lawful: "lawful_waits sample"
  by (simp add: lawful_waits_def sample_def operational_from_trait)

text \<open>The futures it is asked for run in the order of their list.\<close>

lemma sample_join [simp]: "join_all (poll_order sample) ms s = run_all ms s"
  by (rule join_all_in_sequence) (simp add: poll_order_def sample_def)

text \<open>The state before the first test, with the image of \<open>sample_image\<close> already pulled.\<close>

definition sample_state :: "nat sys" where
  "sample_state = \<lparr>world = 0, calls = [], id_cells = [''sha''], state_cells = [], internals = [],
     externals = [], dynamics = [], singular = []\<rparr>"

definition sample_image :: image where
  "sample_image = \<lparr>img_repository = ''web'', img_tag = ''latest'', img_source = None,
     img_pull_policy = IfNotPresent, img_id = 0\<rparr>"

definition sample_shared :: composition where
  "sample_shared = (with_image sample_image)\<lparr>management := Some Internal\<rparr>"

end
