(* ===== verification/Examples.thy ===== *)
theory Examples
  imports Runner Sample
begin

text \<open>
  Witnesses: the properties applied to concrete runs on the small daemon of \<open>Sample\<close>, which show that
  their hypotheses can hold and what they say there. The runs are evaluated by the simplifier from
  the definitions.
\<close>

section \<open>Evaluation\<close>

text \<open>What the daemon answers, so that the record itself need not be unfolded.\<close>

lemma sample_api [simp]:
  "b_inspect_container sample n w = (Inr \<lparr>ir_id = Some n, ir_state = Some (Some RUNNING),
     ir_network_settings = Some \<lparr>ns_networks = Some [], ns_ports = Some []\<rparr>\<rparr>, w)"
  "b_create_container sample n b w = (Inr (sample_id w), Suc w)"
  "b_start_container sample n w = (Inr (), w)"
  "b_stop_container sample n w = (Inr (), w)"
  "b_remove_container sample n x y w = (Inr (), w)"
  "b_pause_container sample n w = (Inr (), w)"
  "b_unpause_container sample n w = (Inr (), w)"
  "b_kill_container sample n g w = (Inr (), w)"
  "b_create_network sample n w = (Inr ''net'', w)"
  "b_remove_network sample n w = (Inr (), w)"
  "b_list_networks sample n w = (Inr [], w)"
  "b_connect_network sample n i w = (Inr (), w)"
  "b_disconnect_network sample n i x w = (Inr (), w)"
  "b_inspect_image sample i w = (Inr (Some ''sha''), w)"
  "b_create_image sample i t z w = ([], w)"
  "b_remove_volume sample v x w = (Inr (), w)"
  "random_range sample lo hi w = (lo, w)"
  "create_file sample path w = (Inr (), w)"
  "write_sink sample k m w = (Inr (), w)"
  "tick sample period check w = w"
  "getenv sample v = None"
  by (simp_all add: sample_def)

lemmas run_simps = sample_image_def action_defs issue_def issue_stream_def in_world_def

definition sample_web :: composition where
  "sample_web = (with_image sample_image)\<lparr>container_name := ''web'', comp_env := [(''K'', ''V'')],
     comp_port := [(''80/tcp'', ''8080'')]\<rparr>"

lemma sample_web_facts [simp]: "container_name sample_web = ''web''" "img_id (comp_image sample_web) = 0"
  by (simp_all add: sample_web_def with_image_def sample_image_def)

lemma sample_state_facts [simp]:
  "world sample_state = 0" "calls sample_state = []" "id_cells sample_state = [''sha'']"
  "state_cells sample_state = []" "internals sample_state = []" "externals sample_state = []"
  "dynamics sample_state = []" "singular sample_state = []"
  by (simp_all add: sample_state_def)

definition sample_pending :: pending_container where
  "sample_pending = PendingContainer_new sample ''web'' ''c'' ''web'' Relaxed NoWait None
     (comp_log_options sample_web)"

definition sample_running :: operational_container where
  "sample_running = \<lparr>oper_handle = ''web'', oper_id = ''c'', oper_name = ''web'', oper_ip = UNSPECIFIED,
     oper_ports = [], oper_is_static = False, oper_log_options = None, oper_assumed_state = 0\<rparr>"

lemma sample_create:
  "create_container_inner sample sample_web (Some ''net'') sample_state =
    (Ok sample_pending, sample_state\<lparr>world := 1, calls := [InspectContainer ''web'',
       RemoveContainer ''web'' True False,
       CreateContainer ''web'' (create_body sample_web ''sha'' (Some ''net''))]\<rparr>)"
  by (simp add: create_container_inner_def remove_container_if_exists_def run_simps sample_web_def
     with_image_def is_static_def retrieved_id_def handle_def static_management_policy_of_def sample_id_def
     read_cell_def sample_pending_def)

lemma created_container_request_witness:
  "\<exists>rs. removes_stale sample_web rs
    \<and> calls (snd (create_container_inner sample sample_web (Some ''net'') sample_state))
      = calls sample_state @ rs @ [CreateContainer ''web'' (create_body sample_web ''sha'' (Some ''net''))]"
  using created_container_request [OF sample_create]
  by (auto simp: sample_create Let_def)

definition sample_networks :: "nat bollard" where
  "sample_networks = sample\<lparr>b_list_networks := (\<lambda>n w. (Inr
     [\<lparr>ni_id = Some ''a'', ni_name = Some ''net'', ni_created = Some ''2024-01-01''\<rparr>,
      \<lparr>ni_id = Some ''b'', ni_name = Some ''net'', ni_created = Some ''2024-01-02''\<rparr>,
      \<lparr>ni_id = Some ''x'', ni_name = Some ''net2'', ni_created = Some ''2024-01-03''\<rparr>], w))\<rparr>"

lemma sample_existing:
  "existing_dockertest_network sample_networks ''net'' sample_state =
     (Ok (Some ''b''), sample_state\<lparr>calls := [ListNetworks ''net'']\<rparr>)"
  by (simp add: existing_dockertest_network_def sample_networks_def run_simps unwrap_none_def less_char_def)

lemma existing_network_latest_witness:
  "existing_dockertest_network sample_networks ''net'' sample_state =
     (Ok (Some ''b''), sample_state\<lparr>calls := [ListNetworks ''net'']\<rparr>)
   \<and> (\<exists>ns. fst (b_list_networks sample_networks ''net'' 0) = Inr ns \<and> is_latest ''net'' ns (Some ''b''))"
  using existing_network_latest [OF sample_existing] by (auto simp: sample_existing)

lemma create_network_trace_witness:
  "calls (snd (create_network sample ''net'' (Some ''me'') sample_state))
     = [CreateNetwork ''net'', ConnectNetwork ''net'' ''me'']"
proof -
  obtain r s' where c: "create_network sample ''net'' (Some ''me'') sample_state = (r, s')"
    by (cases "create_network sample ''net'' (Some ''me'') sample_state")
  show ?thesis using create_network_trace [OF c] c by auto
qed

lemma operations_guarded_witness:
  "perform sample sample_running Unpause (sample_state\<lparr>state_cells := [Running]\<rparr>)
     = (Panic ''called `Result::unwrap()` on an `Err` value'', sample_state\<lparr>state_cells := [Running]\<rparr>)"
proof -
  have "live_cell sample_running (sample_state\<lparr>state_cells := [Running]\<rparr>)"
    by (simp add: live_cell_def sample_running_def)
  from operations_guarded [OF this, of Unpause sample] show ?thesis
    by (simp add: assumed_def sample_running_def)
qed

lemma body_conversation_witness:
  "conversation sample_running Exited
     [PauseContainer ''web'', UnpauseContainer ''web'', KillContainer ''web'' ''SIGKILL'']"
proof -
  let ?s = "sample_state\<lparr>state_cells := [Running]\<rparr>"
  let ?k = "[PauseContainer ''web'', UnpauseContainer ''web'', KillContainer ''web'' ''SIGKILL'']"
  have "body_step sample sample_running ?s (?s\<lparr>state_cells := [Paused], calls := take 1 ?k\<rparr>)"
    "body_step sample sample_running (?s\<lparr>state_cells := [Paused], calls := take 1 ?k\<rparr>)
       (?s\<lparr>calls := take 2 ?k\<rparr>)"
    "body_step sample sample_running (?s\<lparr>calls := take 2 ?k\<rparr>)
       (?s\<lparr>state_cells := [Exited], calls := ?k\<rparr>)"
    by (rule body_step.intros [where opn = Pause] body_step.intros [where opn = Unpause]
          body_step.intros [where opn = Kill],
        simp add: pause_def unpause_def kill_def unwrap_action_def goto_state_def docker_pause_def
          docker_unpause_def docker_kill_def run_simps sample_running_def)+
  then have "body_reachable sample sample_running ?s (?s\<lparr>state_cells := [Exited], calls := ?k\<rparr>)"
    by (meson body_reachable.intros)
  from body_conversation [OF this] show ?thesis
    by (simp add: live_cell_def assumed_def sample_running_def)
qed

definition shared_pending_web :: pending_container where
  "shared_pending_web = PendingContainer_new sample ''web'' ''c'' ''web'' Relaxed NoWait (Some Internal)
     (Some default_log_options)"

definition sample_created :: "nat sys" where
  "sample_created = sample_state\<lparr>world := 1,
     calls := [CreateContainer ''web'' (create_body sample_shared ''sha'' (Some ''net'')),
       ConnectNetwork ''net'' ''c''],
     internals := [(''web'', \<lparr>int_status = IPending shared_pending_web, completion_counter = 1\<rparr>)]\<rparr>"

lemma sample_shared_facts [simp]:
  "container_name sample_shared = ''web''" "img_id (comp_image sample_shared) = 0"
  "management sample_shared = Some Internal" "handle sample_shared = ''web''"
  "comp_start_policy sample_shared = Relaxed" "comp_wait sample_shared = NoWait"
  "comp_log_options sample_shared = Some default_log_options"
  by (simp_all add: sample_shared_def with_image_def sample_image_def replace_char_def handle_def)

lemma sample_created_facts [simp]:
  "internals sample_created = [(''web'', \<lparr>int_status = IPending shared_pending_web, completion_counter = 1\<rparr>)]"
  by (simp add: sample_created_def)

lemma shared_pending_web_facts [simp]:
  "pend_id shared_pending_web = ''c''" "pend_name shared_pending_web = ''web''"
  by (simp_all add: shared_pending_web_def PendingContainer_new_def)

lemma sample_internal_create:
  "internal_create sample sample_shared (Some ''net'') Isolated sample_state =
     (Ok shared_pending_web, sample_created)"
  by (simp add: internal_create_def create_internal_container_inner_def create_first_def
     create_internal_container_impl_def create_container_inner_def is_static_def retrieved_id_def
     read_cell_def static_management_policy_of_def run_simps sample_id_def
     add_container_to_network_def sample_created_def flip: shared_pending_web_def)

definition sample_shared_run :: "nat sharing" where
  "sample_shared_run = \<lparr>sh_sys = sample_created\<lparr>internals := [(''web'', \<lparr>int_status = ICleaned, completion_counter = 0\<rparr>)]\<rparr>,
     held = {}, handed_out = {''c''}, seen = {''c''}\<rparr>"

lemma sample_decrement:
  "decrement_completion_counters [''c''] sample_created =
    (Ok [''c''], sample_created\<lparr>internals := [(''web'', \<lparr>int_status = ICleaned, completion_counter = 0\<rparr>)]\<rparr>)"
  by (simp add: decrement_completion_counters_def)

lemma sample_sharing: "sharing_reachable sample sample_shared_run"
proof -
  let ?a = "\<lparr>sh_sys = sample_state, held = {}, handed_out = {}, seen = {}\<rparr>"
  let ?b = "?a\<lparr>sh_sys := sample_created, held := {(0, ''web'', ''c'')}, seen := {''c''}\<rparr>"
  have ids: "id_of (internals sample_created) n = (if n = ''web'' then Some ''c'' else None)" for n
    by (simp add: id_of_def)
  have "sharing_step sample ?a ?b"
    using sharing_step.create [where a = ?a and t = 0, OF _ _ refl] sample_internal_create ids by fastforce
  moreover have "sharing_step sample ?b sample_shared_run"
  proof -
    have "let_go 0 {(0, ''web'', ''c'')} = {}" by (auto simp: let_go_def)
    then show ?thesis
      using sharing_step.release [where a = ?b and t = 0 and ids = "[''c'']", of _ _ sample]
        sample_decrement [where ?'a = docker_test_error]
      by (force simp: ids sample_shared_run_def simp del: sample_created_facts)
  qed
  ultimately show ?thesis
    using sharing_reachable.init [of sample_state] by (meson sharing_reachable.step sample_state_facts)
qed

lemma removed_containers_unused_witness: "(0, ''web'', ''c'') \<notin> held sample_shared_run"
  using removed_containers_unused [OF sample_sharing sample_lawful, of "''c''"]
  by (simp add: sample_shared_run_def)

lemma counter_covers_users_witness:
  "card (users (held sample_shared_run) ''web'') \<le> count_of (internals (sh_sys sample_shared_run)) ''web''"
  by (rule counter_covers_users [OF sample_sharing sample_lawful, THEN conjunct1])

lemma sample_singular:
  "create_singular_network sample None ''suite'' sample_state = (Ok ''net'',
     sample_state\<lparr>calls := [ListNetworks (scoped_name ''suite''), CreateNetwork (scoped_name ''suite'')],
       singular := [(''suite'', NetComplete ''net'')]\<rparr>)"
  by (simp add: create_singular_network_def existing_dockertest_network_def create_singular_network_impl_def
     connect_singular_def run_simps)

lemma singular_network_once_witness:
  "created_count (creates_network ''suite'')
     (snd (create_singular_network sample None ''suite'' sample_state)) \<le> 1"
proof -
  let ?op = "\<lambda>(self, n). create_singular_network sample self n"
  have "?op (None, ''suite'') sample_state = (Ok ''net'',
      snd (create_singular_network sample None ''suite'' sample_state))"
    by (simp add: sample_singular)
  then have "registry_run ?op network_present creates_network sample_state
      (snd (create_singular_network sample None ''suite'' sample_state))"
    by (rule registry_run.call [OF registry_run.start]) simp
  from singular_network_once [OF this, of "''suite''"] show ?thesis
    by (simp add: network_present_def created_count_def)
qed

lemma singular_network_final_witness:
  "fst (create_singular_network sample (Some ''me'') ''suite''
     (snd (create_singular_network sample None ''suite'' sample_state))) = Ok ''net''"
  using singular_network_final [OF sample_singular, of "Some ''me''"]
  by (simp add: sample_singular)

lemma static_cleanup_removes_witness:
  "\<exists>before after. calls (snd (static_cleanup sample ''net'' Isolated [''c''] sample_created))
     = calls sample_created @ before @ [RemoveContainer ''c'' True False] @ after"
proof -
  have "internals_ok (internals sample_created)" "last_released [''c''] (internals sample_created) = [''c'']"
    by (simp_all add: internals_ok_def last_released_def map_filter_simps released_def)
  moreover obtain r s' where "static_cleanup sample ''net'' Isolated [''c''] sample_created = (r, s')"
    by (cases "static_cleanup sample ''net'' Isolated [''c''] sample_created")
  ultimately show ?thesis using static_cleanup_removes [of sample_created sample "''net''" Isolated "[''c'']"]
    by auto
qed

definition sample_external :: composition where
  "sample_external = (with_image sample_image)\<lparr>management := Some External, container_name := ''db''\<rparr>"

definition sample_dynamic :: composition where
  "sample_dynamic = (with_image sample_image)\<lparr>management := Some Dynamic, container_name := ''db''\<rparr>"

lemma dynamic_running_left_alone_witness:
  "\<exists>r. map_of (dynamics (snd (create_container sample sample_dynamic None Singular sample_state))) ''db''
     = Some (DRunningPrior r) \<and> oper_id r = ''db''"
proof -
  have c: "static_management_policy_of sample_dynamic = Some Dynamic" "container_name sample_dynamic = ''db''"
    "is_static sample_dynamic"
    by (simp_all add: sample_dynamic_def static_management_policy_of_def is_static_def)
  obtain x s' where x: "create_container sample sample_dynamic None Singular sample_state = (Ok x, s')"
    by (simp add: create_container_def static_create_def c dynamic_create_def create_dynamic_container_def
       running_container_from_composition_def insert_dynamic_def run_simps unwrap_none_def new_state_cell_def
       ignore_err_def)
  have "fst (b_inspect_container sample (container_name sample_dynamic) (world sample_state)) = Inr
      \<lparr>ir_id = Some ''db'', ir_state = Some (Some RUNNING),
       ir_network_settings = Some \<lparr>ns_networks = Some [], ns_ports = Some []\<rparr>\<rparr>"
    by (simp add: c(2))
  from dynamic_running_left_alone [OF c(1) _ this _ x, where nw' = None] show ?thesis
    by (auto simp: c(2) x)
qed

definition sample_client :: composition where
  "sample_client = inject_container_name ''web'' ''WEB_HOST'' ((with_image sample_image)
     \<lparr>user_provided_container_name := Some ''client''\<rparr>)"

lemma injected_environment_witness:
  "\<exists>e e' s'. resolve_final_container_name sample ''ns'' (bootstrap [sample_web, sample_client]) sample_state
       = (Ok e :: (docker_test_error, _) result, s')
     \<and> resolve_inject_container_name_env e = Ok e'
     \<and> map_of (comp_env (eng_phase e' ! 1)) ''WEB_HOST'' = Some (container_name (eng_phase e ! 0))"
proof -
  have h: "handle sample_web = ''web''" "handle sample_client = ''client''"
    "inject_container_name_env sample_web = []"
    "inject_container_name_env sample_client = [(''web'', ''WEB_HOST'')]"
    by (simp_all add: sample_web_def sample_client_def handle_def with_image_def sample_image_def
        inject_container_name_def)
  obtain e s' where e: "resolve_final_container_name sample ''ns'' (bootstrap [sample_web, sample_client])
      sample_state = (Ok e :: (docker_test_error, _) result, s')"
    using configure_names_total [where 'e = docker_test_error, of sample "''ns''" "eng_phase (bootstrap [sample_web, sample_client])" sample_state]
    by (force simp: resolve_final_container_name_def returnR_def)
  from injected_environment [OF e] show ?thesis
    using e by (cases "resolve_inject_container_name_env e") (auto simp: h less_Suc_eq all_conj_distrib)
qed

lemma sample_ignite:
  "ignite sample ''net'' Isolated (bootstrap [sample_web]) sample_state =
    (Ok \<lparr>eng_keeper = eng_keeper (bootstrap [sample_web]), eng_phase = [TPending sample_pending]\<rparr>,
     snd (create_container_inner sample sample_web (Some ''net'') sample_state))"
proof -
  have "\<not> is_static sample_web" by (simp add: sample_web_def is_static_def with_image_def)
  then show ?thesis
    by (simp add: ignite_def bootstrap_def create_container_def sample_create run_simps transitional_of_def)
qed

lemma sample_pending_facts [simp]:
  "pend_id sample_pending = ''c''" "pend_name sample_pending = ''web''" "pend_handle sample_pending = ''web''"
  "pend_start_policy sample_pending = Relaxed" "pend_wait sample_pending = Some NoWait"
  "\<not> pend_is_static sample_pending" "pend_expected_state sample_pending = Running"
  by (simp_all add: sample_pending_def PendingContainer_new_def expected_state_def)

lemma sample_start:
  "\<exists>r. start_container sample sample_pending s = (Ok r, s\<lparr>calls := calls s @ [StartContainer ''web''],
     state_cells := state_cells s @ [Running]\<rparr>) \<and> same_container sample_pending r"
  by (simp add: start_container_def start_container_inner_def wait_for_ready_defs operational_from_def run_simps
     new_state_cell_def same_container_def)

text \<open>No spawned task runs before it is joined.\<close>

definition sample_schedule :: schedule where
  "sample_schedule = \<lparr>before_strict = [], before_join = [], before_startup_logs = [], before_teardown = [],
     after_teardown = []\<rparr>"

lemma sample_schedule_facts [simp]:
  "before_strict sample_schedule = []" "before_join sample_schedule = []"
  by (simp_all add: sample_schedule_def)

lemma sample_orbiting:
  "\<exists>e' s'. orbiting sample sample_schedule \<lparr>eng_keeper = k, eng_phase = [TPending sample_pending]\<rparr> s = (Ok e', s')"
proof -
  obtain r where "start_container sample sample_pending s = (Ok r, s\<lparr>calls := calls s @ [StartContainer ''web''],
     state_cells := state_cells s @ [Running]\<rparr>)"
    using sample_start by blast
  then show ?thesis
    by (simp add: orbiting_def start_containers_def map_err_def pending_of_def map_filter_simps wait_for_relaxed_containers_def
       run_task_def static_external_containers_def external_containers_list_def prior_running_containers_def run_simps
       split: prod.split)
qed

end
