(* ===== verification/Connection.thy ===== *)
theory Connection
  imports Runner
begin

text \<open>
  The way into the library: \<open>run\<close> and \<open>run_async\<close> of \<open>src/dockertest.rs\<close>, the connection to the
  daemon that they need (\<open>src/docker/mod.rs\<close>, \<open>src/utils.rs\<close>), and what a test that passes has done.
\<close>

section \<open>Connecting\<close>

text \<open>
  What the connection depends on: the feature \<open>tls\<close> of the build, the environment, the constructors of
  the client, and whether a runtime can be allocated (the display of the error otherwise).
\<close>

record 'w host =
  tls_feature :: bool
  host_env :: "string \<Rightarrow> string option"
  connect_with_ssl_defaults :: "b_error + 'w bollard"
  connect_with_local_defaults :: "b_error + 'w bollard"
  host_debug :: "b_error \<Rightarrow> string"
  runtime_new :: "string + unit"

definition describe :: "'w host \<Rightarrow> string \<Rightarrow> b_error + 'w bollard \<Rightarrow> docker_test_error + 'w bollard" where
  "describe h what r = (case r of
       Inl e \<Rightarrow> Inl (Daemon (what @ '': '' @ host_debug h e))
     | Inr client \<Rightarrow> Inr client)"

definition connect_with_local_or_tls_defaults :: "'w host \<Rightarrow> docker_test_error + 'w bollard" where
  "connect_with_local_or_tls_defaults h =
     (if tls_feature h then
        (case host_env h ''DOCKER_TLS_VERIFY'' of
           Some verify \<Rightarrow>
             (if utf8_valid verify \<and> verify \<noteq> [] then
                describe h ''connection with TLS defaults'' (connect_with_ssl_defaults h)
              else describe h ''connection with local defaults'' (connect_with_local_defaults h))
         | None \<Rightarrow> describe h ''connection with local defaults'' (connect_with_local_defaults h))
      else describe h ''connection with locals defaults'' (connect_with_local_defaults h))"

text \<open>The result is unwrapped at once, so a daemon that cannot be reached is a panic.\<close>

definition Docker_new :: "'w host \<Rightarrow> (docker_test_error, 'w bollard) result" where
  "Docker_new h = (case connect_with_local_or_tls_defaults h of
       Inl _ \<Rightarrow> Panic ''called `Result::unwrap()` on an `Err` value''
     | Inr client \<Rightarrow> Ok client)"

section \<open>Running a test\<close>

text \<open>
  \<open>run_async\<close>: the runner connects first, and everything else happens through the client it gets.
  \<open>run\<close> allocates a runtime for it. A panic of the test or of the library reaches the caller; an error
  has become a panic before, so there is no error value.
\<close>

definition DockerTest_run_async ::
  "'w host \<Rightarrow> schedule \<Rightarrow> docker_test \<Rightarrow> (docker_operations \<Rightarrow> ('w sys, unit, unit) action)
   \<Rightarrow> ('w sys, docker_test_error, unit) action" where
  "DockerTest_run_async h schedule config test =
     (case Docker_new h of
        Ok client \<Rightarrow> bindR (Runner_new client config) (\<lambda>runner.
          process_run (run_impl client schedule runner test))
      | Err _ \<Rightarrow> panicR ''called `Result::unwrap()` on an `Err` value''
      | Panic p \<Rightarrow> panicR p)"

definition DockerTest_run ::
  "'w host \<Rightarrow> schedule \<Rightarrow> docker_test \<Rightarrow> (docker_operations \<Rightarrow> ('w sys, unit, unit) action)
   \<Rightarrow> ('w sys, docker_test_error, unit) action" where
  "DockerTest_run h schedule config test =
     (case runtime_new h of
        Inl e \<Rightarrow> panicR e
      | Inr _ \<Rightarrow> DockerTest_run_async h schedule config test)"

end
