(* ===== verification/Placing.thy ===== *)
theory Placing
  imports Engine
begin

text \<open>
  The start phase of \<open>src/engine.rs\<close> on its own: how \<open>start_containers\<close> puts each started container in
  the place of the created one, and how the spawned tasks advance. What a start relies on are the
  locales \<open>keeping_starts\<close>, a start keeps an invariant, and \<open>starting\<close>, it also answers with the
  container it was given.
\<close>

section \<open>Placing started containers\<close>

fun matches :: "operational_container \<Rightarrow> transitional \<Rightarrow> bool" where
  "matches r (TPending p) \<longleftrightarrow> pend_id p = oper_id r"
| "matches r (TStaticExternal e) \<longleftrightarrow> ext_handle e = oper_handle r"
| "matches r (TRunning _) \<longleftrightarrow> False"
| "matches r (TCreationFailure _) \<longleftrightarrow> False"
| "matches r TSentinel \<longleftrightarrow> False"

lemma started_position_matches:
  "started_position r (t # ts) =
     (if matches r t then Some 0 else map_option Suc (started_position r ts))"
  by (cases t) simp_all

lemma started_position_Some:
  "started_position r ts = Some i \<Longrightarrow> i < length ts \<and> matches r (ts ! i)"
  by (induction ts arbitrary: i)
     (auto simp: started_position_matches simp del: started_position.simps(2) split: if_splits)

lemma started_position_None: "started_position r ts = None \<Longrightarrow> t \<in> set ts \<Longrightarrow> \<not> matches r t"
  by (induction ts)
     (auto simp: started_position_matches simp del: started_position.simps(2) split: if_splits)

lemma length_place [simp]: "length (place r kept) = length kept"
  by (simp add: place_def split: option.split)

lemma length_fold_place [simp]: "length (fold place rs kept) = length kept"
  by (induction rs arbitrary: kept) simp_all

lemma place_nth:
  "i < length kept \<Longrightarrow> place r kept ! i = kept ! i
    \<or> place r kept ! i = TRunning r \<and> matches r (kept ! i)"
  using started_position_Some [of r kept]
  by (auto simp: place_def nth_list_update split: option.split)

lemma fold_place_nth:
  "i < length kept \<Longrightarrow> fold place rs kept ! i = kept ! i
    \<or> (\<exists>r \<in> set rs. fold place rs kept ! i = TRunning r \<and> matches r (kept ! i))"
proof (induction rs arbitrary: kept)
  case Nil
  then show ?case by simp
next
  case (Cons r rs)
  then show ?case
    using Cons.IH [of "place r kept"] place_nth [OF Cons.prems, of r] by fastforce
qed

text \<open>A container with a single match is placed, and nothing matches it afterwards.\<close>

lemma place_removes_match:
  assumes "\<And>i j. i < length kept \<Longrightarrow> j < length kept \<Longrightarrow> matches r (kept ! i) \<Longrightarrow> matches r (kept ! j) \<Longrightarrow> i = j"
    and "j < length kept"
  shows "\<not> matches r (place r kept ! j)"
proof (cases "started_position r kept")
  case None
  with assms(2) started_position_None [OF None] show ?thesis by (simp add: place_def)
next
  case (Some i)
  with started_position_Some [OF Some] assms(1) [of i j] assms(2) show ?thesis
    by (auto simp: place_def nth_list_update)
qed

lemma fold_place_no_match:
  assumes "j < length kept" and "\<not> matches r (kept ! j)"
  shows "\<not> matches r (fold place rs kept ! j)"
  using fold_place_nth [OF assms(1), of rs] assms(2) by auto

lemma fold_place_matched:
  assumes "r \<in> set rs"
    and "\<And>i j. i < length kept \<Longrightarrow> j < length kept \<Longrightarrow> matches r (kept ! i) \<Longrightarrow> matches r (kept ! j) \<Longrightarrow> i = j"
    and "j < length kept"
  shows "\<not> matches r (fold place rs kept ! j)"
  using assms
proof (induction rs arbitrary: kept)
  case Nil
  then show ?case by simp
next
  case (Cons x rs)
  have unique: "i = k" if "i < length (place x kept)" "k < length (place x kept)"
    "matches r (place x kept ! i)" "matches r (place x kept ! k)" for i k
    using that place_nth [of i kept x] place_nth [of k kept x] Cons.prems(2) [of i k] by auto
  show ?case
  proof (cases "r = x")
    case True
    have "\<not> matches r (place r kept ! j)"
      using Cons.prems(2,3) by (rule place_removes_match)
    with True Cons.prems(3) show ?thesis
      using fold_place_no_match [of j "place r kept" r rs] by simp
  next
    case False
    with Cons.prems(1) have "r \<in> set rs" by simp
    then have "\<not> matches r (fold place rs (place x kept) ! j)"
      using unique Cons.prems(3) by (intro Cons.IH) auto
    then show ?thesis by simp
  qed
qed

text \<open>Which containers a successful start placed, and where.\<close>

lemma set_pending_of: "p \<in> set (pending_of kept) \<longleftrightarrow> TPending p \<in> set kept"
  by (induction kept) (auto simp: pending_of_def List.map_filter_simps split: transitional.split)

lemma set_external_refs: "e \<in> set (external_refs kept) \<longleftrightarrow> TStaticExternal e \<in> set kept"
  by (induction kept) (auto simp: external_refs_def List.map_filter_simps split: transitional.split)

lemma distinct_pending_ids:
  assumes "distinct (map pend_id (pending_of kept))"
    and "i < length kept" "j < length kept" "kept ! i = TPending p" "kept ! j = TPending q" "pend_id p = pend_id q"
  shows "i = j"
  using assms
proof (induction kept arbitrary: i j)
  case Nil
  then show ?case by simp
next
  case (Cons t ts)
  have mem: "k < length ts \<Longrightarrow> ts ! k = TPending r \<Longrightarrow> r \<in> set (pending_of ts)" for k r
    using nth_mem [of k ts] by (simp add: set_pending_of)
  have tl: "distinct (map pend_id (pending_of ts))"
    using Cons.prems(1) by (cases t) (auto simp: pending_of_def List.map_filter_simps)
  have hd: "t = TPending r \<Longrightarrow> k < length ts \<Longrightarrow> ts ! k = TPending x \<Longrightarrow> pend_id r \<noteq> pend_id x" for r k x
    using Cons.prems(1) mem [of k x] by (auto simp: pending_of_def List.map_filter_simps)
  show ?case
  proof (cases i; cases j)
    fix m n
    assume "i = Suc m" "j = Suc n"
    with Cons.IH [OF tl, of m n] Cons.prems(2-) show ?thesis by simp
  next
    fix n
    assume "i = 0" "j = Suc n"
    with hd [of p n q] Cons.prems(2-) show ?thesis by simp
  next
    fix m
    assume "i = Suc m" "j = 0"
    with hd [of q m p] Cons.prems(2-) show ?thesis by simp
  qed simp
qed

text \<open>The running form of a created container matches only that container's entry.\<close>

lemma started_match_unique:
  assumes ids: "distinct (map pend_id (pending_of kept))"
    and handles: "pend_handle ` set (pending_of kept) \<inter> ext_handle ` set (external_refs kept) = {}"
    and p: "p \<in> set (pending_of kept)" "same_container p r"
    and ab: "a < length kept" "b < length kept" "matches r (kept ! a)" "matches r (kept ! b)"
  shows "a = b"
proof -
  have "\<exists>q. kept ! c = TPending q \<and> pend_id q = oper_id r"
    if "c < length kept" "matches r (kept ! c)" for c
  proof (cases "kept ! c")
    case (TStaticExternal e)
    then have "e \<in> set (external_refs kept)"
      using nth_mem [OF that(1)] by (simp add: set_external_refs)
    moreover have "ext_handle e = pend_handle p"
      using that(2) TStaticExternal p(2) by (simp add: same_container_def)
    ultimately show ?thesis using handles p(1) by (metis disjoint_iff image_eqI)
  qed (use that in auto)
  with ab distinct_pending_ids [OF ids ab(1,2)] show ?thesis by metis
qed

lemma fold_place_pending:
  assumes ids: "distinct (map pend_id (pending_of kept))"
    and handles: "pend_handle ` set (pending_of kept) \<inter> ext_handle ` set (external_refs kept) = {}"
    and all: "\<And>p. p \<in> set (pending_of kept) \<Longrightarrow> \<exists>r \<in> set started. same_container p r"
    and from_p: "\<And>r. r \<in> set started \<Longrightarrow> \<exists>p \<in> set (pending_of kept). same_container p r"
    and i: "i < length kept" and pend: "kept ! i = TPending p"
  shows "\<exists>x. fold place started kept ! i = TRunning x \<and> same_container p x"
proof -
  have "p \<in> set (pending_of kept)" using nth_mem [OF i] pend by (simp add: set_pending_of)
  then obtain r where r: "r \<in> set started" "same_container p r" using all by blast
  have "\<not> matches r (fold place started kept ! i)"
    using r(1) _ i
  proof (rule fold_place_matched)
    obtain q where "q \<in> set (pending_of kept)" "same_container q r" using from_p [OF r(1)] by blast
    then show "a = b" if "a < length kept" "b < length kept" "matches r (kept ! a)" "matches r (kept ! b)" for a b
      using started_match_unique [OF ids handles _ _ that] by blast
  qed
  then have "fold place started kept ! i \<noteq> TPending p" using r(2) by (auto simp: same_container_def)
  then obtain x where x: "x \<in> set started" "fold place started kept ! i = TRunning x" "matches x (TPending p)"
    using fold_place_nth [OF i, of started] pend by auto
  obtain q where q: "q \<in> set (pending_of kept)" "same_container q x"
    using from_p [OF x(1)] by blast
  obtain j where j: "j < length kept" "kept ! j = TPending q"
    using q(1) set_pending_of [of q kept] in_set_conv_nth [of "TPending q" kept] by blast
  have "j = i"
    by (rule distinct_pending_ids [OF ids j(1) i j(2) pend])
       (use q(2) x(3) in \<open>simp add: same_container_def\<close>)
  with j pend q x(2) show ?thesis by simp
qed

section \<open>Tasks\<close>

fun task_for :: "pending_container \<Rightarrow> start_task \<Rightarrow> bool" where
  "task_for p (Todo q) \<longleftrightarrow> q = p"
| "task_for p (Finished (Inr r)) \<longleftrightarrow> same_container p r"
| "task_for p (Finished (Inl e)) \<longleftrightarrow> True"
| "task_for p TaskPanicked \<longleftrightarrow> True"

text \<open>Running tasks unstarts none.\<close>

definition advances :: "start_task list \<Rightarrow> start_task list \<Rightarrow> bool" where
  "advances tasks tasks' \<longleftrightarrow>
     length tasks' = length tasks \<and> (\<forall>j p. tasks' ! j = Todo p \<longrightarrow> tasks ! j = Todo p)"

lemma advances_refl: "advances tasks tasks"
  by (simp add: advances_def)

lemma advances_trans: "advances a b \<Longrightarrow> advances b c \<Longrightarrow> advances a c"
  by (simp add: advances_def)

lemma advances_todo: "advances a b \<Longrightarrow> Todo p \<in> set b \<Longrightarrow> Todo p \<in> set a"
  by (auto simp: advances_def in_set_conv_nth)

lemma advances_update: "k < length tasks \<Longrightarrow> (\<And>p. t \<noteq> Todo p) \<Longrightarrow> advances tasks (tasks[k := t])"
  by (auto simp: advances_def nth_list_update)

lemma gather_relaxed_Inr:
  assumes "gather_relaxed tasks running first_error = Inr rs" and "list_all2 task_for ps tasks"
    and "\<And>p. Todo p \<notin> set tasks"
  shows "first_error = None \<and> (\<exists>rs'. rs = running @ rs' \<and> list_all2 same_container ps rs')"
  using assms
proof (induction tasks running first_error arbitrary: ps rule: gather_relaxed.induct)
  case (3 r ts running first_error)
  then obtain p ps' where ps: "ps = p # ps'" "same_container p r" "list_all2 task_for ps' ts"
    by (auto simp: list_all2_Cons2)
  obtain rs' where "first_error = None" "rs = (running @ [r]) @ rs'" "list_all2 same_container ps' rs'"
    using "3.IH" [OF _ ps(3)] "3.prems" by auto
  with ps show ?case by auto
next
  case (4 e ts running first_error)
  from "4.prems"(2) obtain p ps' where "ps = p # ps'" "list_all2 task_for ps' ts"
    by (auto simp: list_all2_Cons2)
  with 4 show ?case by (fastforce split: option.splits)
next
  case (5 ts running first_error)
  from "5.prems"(2) obtain p ps' where "ps = p # ps'" "list_all2 task_for ps' ts"
    by (auto simp: list_all2_Cons2)
  with 5 show ?case by (fastforce split: option.splits)
qed auto

lemma list_all2_partner:
  "list_all2 P xs ys \<Longrightarrow> (\<forall>x \<in> set xs. \<exists>y \<in> set ys. P x y) \<and> (\<forall>y \<in> set ys. \<exists>x \<in> set xs. P x y)"
  by (induction rule: list_all2_induct) auto

section \<open>The contract of a start\<close>

text \<open>
  Running a task runs the start of its container, or nothing.
\<close>

lemma run_task_cases:
  obtains (idle) "\<And>p. k < length tasks \<Longrightarrow> tasks ! k \<noteq> Todo p"
      "run_task d tasks k s = (Ok tasks :: ('e, start_task list) result, s)"
  | (starts) p x s' new where "k < length tasks" "tasks ! k = Todo p" "start_container d p s = (x, s')"
      "run_task d tasks k s = (Ok (tasks[k := new]) :: ('e, start_task list) result, s')"
      "new = (case x of Ok r \<Rightarrow> Finished (Inr r) | Err e \<Rightarrow> Finished (Inl e) | Panic _ \<Rightarrow> TaskPanicked)"
proof (cases "k < length tasks \<and> (\<exists>p. tasks ! k = Todo p)")
  case False
  show thesis
    by (rule idle) (use False in \<open>auto simp: run_task_def ret_defs split: start_task.split\<close>)
next
  case True
  then obtain p where p: "k < length tasks" "tasks ! k = Todo p" by blast
  obtain x t where x: "start_container d p s = (x, t)" by (cases "start_container d p s")
  show thesis
    by (rule starts [OF p x _ refl]) (use p x in \<open>simp add: run_task_def split: result.split\<close>)
qed

text \<open>
  What every use of the tasks relies on: a start keeps an invariant. So running tasks always finishes.
\<close>

locale keeping_starts =
  fixes d :: "'w bollard" and inv :: "'w sys \<Rightarrow> bool" and ours :: "pending_container set"
  assumes keeps: "p \<in> ours \<Longrightarrow> inv s \<Longrightarrow> start_container d p s = (x, s') \<Longrightarrow> inv s'"
begin

lemma run_task_Ok:
  assumes "inv s" and "\<And>p. Todo p \<in> set tasks \<Longrightarrow> p \<in> ours"
  shows "\<exists>tasks' s'. run_task d tasks k s = (Ok tasks' :: ('e, start_task list) result, s') \<and> inv s'
     \<and> advances tasks tasks' \<and> (k < length tasks \<longrightarrow> (\<forall>p. tasks' ! k \<noteq> Todo p))"
proof (rule run_task_cases [of k tasks d s])
  assume "\<And>p. k < length tasks \<Longrightarrow> tasks ! k \<noteq> Todo p"
    "run_task d tasks k s = (Ok tasks :: ('e, start_task list) result, s)"
  with assms(1) advances_refl show ?thesis by blast
next
  fix p x s' new
  assume p: "k < length tasks" "tasks ! k = Todo p" and x: "start_container d p s = (x, s')"
    and run: "run_task d tasks k s = (Ok (tasks[k := new]) :: ('e, start_task list) result, s')"
    and new: "new = (case x of Ok r \<Rightarrow> Finished (Inr r) | Err e \<Rightarrow> Finished (Inl e) | Panic _ \<Rightarrow> TaskPanicked)"
  have "p \<in> ours" using p assms(2) by (metis nth_mem)
  then have "inv s'" using assms(1) x by (rule keeps)
  moreover have "new \<noteq> Todo q" for q by (simp add: new split: result.split)
  ultimately show ?thesis using run p(1) advances_update [of k tasks new] by auto
qed

lemma run_tasks_Ok:
  assumes "inv s" and "\<And>p. Todo p \<in> set tasks \<Longrightarrow> p \<in> ours"
  shows "\<exists>tasks' s'. run_tasks d ks tasks s = (Ok tasks' :: ('e, start_task list) result, s') \<and> inv s'
     \<and> advances tasks tasks' \<and> (\<forall>k \<in> set ks. k < length tasks \<longrightarrow> (\<forall>p. tasks' ! k \<noteq> Todo p))"
  using assms
proof (induction ks arbitrary: tasks s)
  case Nil
  then show ?case by (simp add: ret_defs advances_refl)
next
  case (Cons k ks)
  obtain t1 s1 where 1: "run_task d tasks k s = (Ok t1 :: ('e, start_task list) result, s1)" "inv s1"
    "advances tasks t1" "k < length tasks \<longrightarrow> (\<forall>p. t1 ! k \<noteq> Todo p)"
    using run_task_Ok [OF Cons.prems] by blast
  obtain t2 s2 where 2: "run_tasks d ks t1 s1 = (Ok t2 :: ('e, start_task list) result, s2)" "inv s2"
    "advances t1 t2" "\<forall>k \<in> set ks. k < length t1 \<longrightarrow> (\<forall>p. t2 ! k \<noteq> Todo p)"
    using Cons.IH [OF 1(2), of t1] Cons.prems(2) advances_todo [OF 1(3)] by blast
  have "run_tasks d (k # ks) tasks s = (Ok t2 :: ('e, start_task list) result, s2)"
    using 1(1) 2(1) by simp
  moreover have "\<forall>j \<in> set (k # ks). j < length tasks \<longrightarrow> (\<forall>p. t2 ! j \<noteq> Todo p)"
    using 1(3,4) 2(3,4) by (auto simp: advances_def)
  ultimately show ?case using advances_trans [OF 1(3) 2(3)] 2(2) by blast
qed

lemma run_all_tasks:
  assumes "inv s" and "\<And>p. Todo p \<in> set tasks \<Longrightarrow> p \<in> ours"
  obtains tasks' s' where
    "run_tasks d (ks @ [0..<length tasks]) tasks s = (Ok tasks' :: ('e, start_task list) result, s')" "inv s'"
    "advances tasks tasks'" "\<And>p. Todo p \<notin> set tasks'"
proof -
  obtain t1 s1 where 1: "run_tasks d (ks @ [0..<length tasks]) tasks s
      = (Ok t1 :: ('e, start_task list) result, s1)" "inv s1" "advances tasks t1"
    "\<forall>k \<in> set (ks @ [0..<length tasks]). k < length tasks \<longrightarrow> (\<forall>p. t1 ! k \<noteq> Todo p)"
    using run_tasks_Ok [OF assms] by blast
  have "Todo p \<notin> set t1" for p
    using 1(3,4) by (auto simp: in_set_conv_nth advances_def)
  with 1(1-3) that show thesis by blast
qed

end

text \<open>The start phase also relies on a started container being the one that was to be started.\<close>

locale starting = keeping_starts +
  assumes faithful: "p \<in> ours \<Longrightarrow> inv s \<Longrightarrow> start_container d p s = (Ok r, s') \<Longrightarrow> same_container p r"
begin

lemma run_task_faithful:
  assumes "inv s" and "\<And>p. Todo p \<in> set tasks \<Longrightarrow> p \<in> ours"
    and "run_task d tasks k s = (Ok tasks' :: ('e, start_task list) result, s')" and "list_all2 task_for ps tasks"
  shows "list_all2 task_for ps tasks'"
proof (rule run_task_cases [of k tasks d s])
  assume "run_task d tasks k s = (Ok tasks :: ('e, start_task list) result, s)"
  with assms(3,4) show ?thesis by simp
next
  fix p x t new
  assume p: "k < length tasks" "tasks ! k = Todo p" and x: "start_container d p s = (x, t)"
    and run: "run_task d tasks k s = (Ok (tasks[k := new]) :: ('e, start_task list) result, t)"
    and new: "new = (case x of Ok r \<Rightarrow> Finished (Inr r) | Err e \<Rightarrow> Finished (Inl e) | Panic _ \<Rightarrow> TaskPanicked)"
  have "p \<in> ours" using p assms(2) by (metis nth_mem)
  then have "task_for p new"
    using x faithful [OF _ assms(1)] by (auto simp: new split: result.split)
  moreover have "ps ! k = p" using list_all2_nthD2 [OF assms(4) p(1)] p(2) by simp
  ultimately show ?thesis
    using assms(3,4) run p(1) by (auto simp: list_all2_conv_all_nth nth_list_update)
qed

lemma run_tasks_faithful:
  assumes "inv s" and "\<And>p. Todo p \<in> set tasks \<Longrightarrow> p \<in> ours"
    and "run_tasks d ks tasks s = (Ok tasks' :: ('e, start_task list) result, s')" and "list_all2 task_for ps tasks"
  shows "list_all2 task_for ps tasks'"
  using assms
proof (induction ks arbitrary: tasks s)
  case Nil
  then show ?case by (simp add: ret_defs)
next
  case (Cons k ks)
  obtain t1 s1 where 1: "run_task d tasks k s = (Ok t1 :: ('e, start_task list) result, s1)" "inv s1"
    "advances tasks t1"
    using run_task_Ok [OF Cons.prems(1,2)] by blast
  have "run_tasks d ks t1 s1 = (Ok tasks' :: ('e, start_task list) result, s')"
    using Cons.prems(3) 1(1) by simp
  moreover have "list_all2 task_for ps t1"
    using run_task_faithful [OF Cons.prems(1,2) 1(1) Cons.prems(4)] .
  ultimately show ?case
    using Cons.IH [OF 1(2), of t1] Cons.prems(2) advances_todo [OF 1(3)] by blast
qed

lemma start_strict_Ok:
  assumes "start_strict_containers d sch tasks cs s = (Ok (rs, tasks'), s')" and "list_all2 task_for ps tasks"
    and "inv s" and "\<And>p. Todo p \<in> set tasks \<Longrightarrow> p \<in> ours" and "set cs \<subseteq> ours"
  shows "list_all2 same_container cs rs \<and> list_all2 task_for ps tasks' \<and> advances tasks tasks' \<and> inv s'"
  using assms
proof (induction cs arbitrary: sch tasks s rs)
  case Nil
  then show ?case by (auto simp: ret_defs advances_refl)
next
  case (Cons c cs)
  obtain t1 s1 where 1: "run_tasks d (case sch of [] \<Rightarrow> [] | ks # _ \<Rightarrow> ks) tasks s
      = (Ok t1 :: (docker_test_error \<times> start_task list, start_task list) result, s1)" "inv s1" "advances tasks t1"
    using run_tasks_Ok [OF Cons.prems(3,4)] by blast
  have t1: "list_all2 task_for ps t1" using run_tasks_faithful [OF Cons.prems(3,4) 1(1) Cons.prems(2)] .
  from Cons.prems(1) 1(1) obtain r s2 rs' where 2: "start_container d c s1 = (Ok r, s2)"
    "start_strict_containers d (tl sch) t1 cs s2 = (Ok (rs', tasks'), s')" "rs = r # rs'"
    by (auto elim!: bindR_Ok matchR_cases simp: ret_defs map_err_def)
  have c: "c \<in> ours" "set cs \<subseteq> ours" using Cons.prems(5) by auto
  have "list_all2 same_container cs rs' \<and> list_all2 task_for ps tasks' \<and> advances t1 tasks' \<and> inv s'"
    using 2(2) t1 keeps [OF c(1) 1(2) 2(1)] Cons.prems(4) [OF advances_todo [OF 1(3)]] c(2) by (rule Cons.IH)
  then show ?case
    using 2 advances_trans [OF 1(3)] faithful [OF c(1) 1(2) 2(1)] by auto
qed

lemma wait_for_relaxed_Ok:
  assumes "wait_for_relaxed_containers d ks tasks s = (Ok rs, s')" and "list_all2 task_for ps tasks"
    and "inv s" and "\<And>p. Todo p \<in> set tasks \<Longrightarrow> p \<in> ours"
  shows "list_all2 same_container ps rs \<and> inv s'"
proof -
  obtain t1 s1 where 1: "run_tasks d (ks @ [0..<length tasks]) tasks s
      = (Ok t1 :: (docker_test_error, start_task list) result, s1)" "inv s1"
    "advances tasks t1" "\<And>p. Todo p \<notin> set t1"
    using run_all_tasks [OF assms(3,4), where ks = ks] by blast
  have "gather_relaxed t1 [] None = Inr rs" "s' = s1"
    using assms(1) 1(1) by (auto simp: wait_for_relaxed_containers_def liftE_def ret_defs split: sum.splits)
  moreover have "list_all2 task_for ps t1" using run_tasks_faithful [OF assms(3,4) 1(1) assms(2)] .
  ultimately show ?thesis using gather_relaxed_Inr 1(2,4) by fastforce
qed

lemma start_containers_Ok:
  assumes "start_containers d sched kept s = (Ok kept', s')"
    and "inv s" and "set (pending_of kept) \<subseteq> ours"
  shows "inv s' \<and> (\<exists>started exts. kept' = fold place exts (fold place started kept)
    \<and> (\<forall>p \<in> set (pending_of kept). \<exists>r \<in> set started. same_container p r)
    \<and> (\<forall>r \<in> set started. \<exists>p \<in> set (pending_of kept). same_container p r)
    \<and> (\<forall>r \<in> set exts. r \<in> snd ` set (externals s') \<or> DRunningPrior r \<in> snd ` set (dynamics s')))"
proof -
  let ?relaxed = "filter (\<lambda>c. pend_start_policy c = Relaxed) (pending_of kept)"
  let ?strict = "filter (\<lambda>c. pend_start_policy c \<noteq> Relaxed) (pending_of kept)"
  from assms(1) obtain ss tasks s1 rs s2 exts where
    1: "start_strict_containers d (before_strict sched) (map Todo ?relaxed) ?strict s = (Ok (ss, tasks), s1)"
    and 2: "wait_for_relaxed_containers d (before_join sched) tasks s1 = (Ok rs, s2)"
    and 3: "kept' = fold place (ss @ rs @ exts) kept" "static_external_containers s2
      = (Ok exts :: (docker_test_error \<times> start_task list, _) result, s')"
    by (auto simp: start_containers_def Let_def ret_defs map_err_def elim!: bindR_Ok matchR_cases split: prod.splits)
  have "running_prior st = Some r \<Longrightarrow> st = DRunningPrior r" for st r by (cases st) auto
  then have "set (List.map_filter (\<lambda>x. running_prior (snd x)) m) \<subseteq> {r. DRunningPrior r \<in> snd ` set m}" for m
    by (induction m) (force simp: map_filter_simps split: option.splits)+
  then have same: "s' = s2" and
    exts: "\<forall>r \<in> set exts. r \<in> snd ` set (externals s2) \<or> DRunningPrior r \<in> snd ` set (dynamics s2)"
    using 3(2) by (auto simp: static_external_containers_def external_containers_list_def
        prior_running_containers_def reads_def ret_defs elim!: bindR_Ok) blast
  have t: "list_all2 task_for ?relaxed (map Todo ?relaxed)"
    by (simp add: list_all2_conv_all_nth)
  have ours: "Todo p \<in> set (map Todo ?relaxed) \<Longrightarrow> p \<in> ours" for p using assms(3) by auto
  have strict: "list_all2 same_container ?strict ss \<and> list_all2 task_for ?relaxed tasks
      \<and> advances (map Todo ?relaxed) tasks \<and> inv s1"
    using 1 t assms(2) ours by (rule start_strict_Ok) (use assms(3) in auto)
  then have "\<And>p. Todo p \<in> set tasks \<Longrightarrow> p \<in> ours" by (blast intro: ours advances_todo)
  then have relaxed: "list_all2 same_container ?relaxed rs \<and> inv s2"
    using wait_for_relaxed_Ok [OF 2] strict by blast
  with strict have all: "list_all2 same_container (?strict @ ?relaxed) (ss @ rs)"
    by (intro list_all2_appendI) auto
  have set: "set (?strict @ ?relaxed) = set (pending_of kept)" by auto
  note partner = list_all2_partner [OF all, unfolded set]
  moreover have "kept' = fold place exts (fold place (ss @ rs) kept)" using 3(1) by simp
  ultimately show ?thesis using relaxed same partner exts by blast
qed

lemma start_containers_length:
  assumes "start_containers d sched kept s = (Ok kept', s')" and "inv s" and "set (pending_of kept) \<subseteq> ours"
  shows "length kept' = length kept"
  using start_containers_Ok [OF assms] by auto

lemma start_containers_placed:
  assumes ok: "start_containers d sched kept s = (Ok kept', s')"
    and inv: "inv s" and ours: "set (pending_of kept) \<subseteq> ours"
    and ids: "distinct (map pend_id (pending_of kept))"
    and handles: "pend_handle ` set (pending_of kept) \<inter> ext_handle ` set (external_refs kept) = {}"
    and i: "i < length kept"
  shows "case kept ! i of
      TPending p \<Rightarrow> \<exists>r. kept' ! i = TRunning r \<and> same_container p r
    | TStaticExternal e \<Rightarrow> kept' ! i = TStaticExternal e
        \<or> (\<exists>r. kept' ! i = TRunning r \<and> oper_handle r = ext_handle e)
    | x \<Rightarrow> kept' ! i = x"
proof -
  obtain started exts where k: "kept' = fold place exts (fold place started kept)"
    and all: "\<And>p. p \<in> set (pending_of kept) \<Longrightarrow> \<exists>r \<in> set started. same_container p r"
    and from_p: "\<And>r. r \<in> set started \<Longrightarrow> \<exists>p \<in> set (pending_of kept). same_container p r"
    using start_containers_Ok [OF ok inv ours] by blast
  let ?mid = "fold place started kept"
  show ?thesis
  proof (cases "kept ! i")
    case (TPending p)
    obtain x where "?mid ! i = TRunning x" "same_container p x"
      using fold_place_pending [OF ids handles all from_p i TPending] by blast
    then show ?thesis using TPending k fold_place_nth [of i ?mid exts] i by auto
  next
    case (TStaticExternal e)
    have "?mid ! i = TStaticExternal e \<or> (\<exists>r. ?mid ! i = TRunning r \<and> oper_handle r = ext_handle e)"
      using fold_place_nth [OF i, of started] TStaticExternal by auto
    then have "kept' ! i = TStaticExternal e \<or> (\<exists>r. kept' ! i = TRunning r \<and> oper_handle r = ext_handle e)"
      using k fold_place_nth [of i ?mid exts] i by auto
    with TStaticExternal show ?thesis by simp
  qed (use k fold_place_nth [OF i, of started] fold_place_nth [of i ?mid exts] i in auto)
qed

end

end
