(* ===== verification/Starting.thy ===== *)
theory Starting
  imports Placing
begin

text \<open>
  The start of the created containers on the real registries: creating and starting keep the
  registries of \<open>src/static_container/\<close> consistent with the containers that were handed out, which
  interprets the locale \<open>starting\<close>. So, whatever the schedule of the spawned tasks, each created
  container is replaced in place by its running form.
\<close>

section \<open>Registries consistent with the created containers\<close>

definition internal_entry :: "internal_status \<Rightarrow> bool" where
  "internal_entry st \<longleftrightarrow> (\<forall>r p. st = IOperational r p \<longrightarrow> same_container p r)
   \<and> (\<forall>p. shared_pending st = Some p \<longrightarrow> pend_static_management_policy p = Some Internal)"

fun dynamic_entry :: "string \<Rightarrow> dynamic_status \<Rightarrow> bool" where
  "dynamic_entry n (DPending p) \<longleftrightarrow> pend_name p = n \<and> pend_static_management_policy p = Some Dynamic"
| "dynamic_entry n (DRunning r p) \<longleftrightarrow>
     pend_name p = n \<and> pend_static_management_policy p = Some Dynamic \<and> same_container p r"
| "dynamic_entry n (DFailed _) \<longleftrightarrow> True"
| "dynamic_entry n (DRunningPrior _) \<longleftrightarrow> True"

lemma internal_entry_simps [simp]:
  "internal_entry (IPending p) \<longleftrightarrow> pend_static_management_policy p = Some Internal"
  "internal_entry (IOperational r p) \<longleftrightarrow>
     same_container p r \<and> pend_static_management_policy p = Some Internal"
  "internal_entry (IFailed e i)" "internal_entry ICleaned"
  by (auto simp: internal_entry_def)

definition statics_ok :: "'w sys \<Rightarrow> bool" where
  "statics_ok s \<longleftrightarrow> internals_ok (internals s)
   \<and> (\<forall>n c. map_of (internals s) n = Some c \<longrightarrow> internal_entry (int_status c))
   \<and> (\<forall>n st. map_of (dynamics s) n = Some st \<longrightarrow> dynamic_entry n st)"

fun internal_for :: "pending_container \<Rightarrow> internal_status \<Rightarrow> bool" where
  "internal_for p (IPending q) \<longleftrightarrow> q = p"
| "internal_for p (IOperational _ q) \<longleftrightarrow> q = p"
| "internal_for p (IFailed _ _) \<longleftrightarrow> True"
| "internal_for p ICleaned \<longleftrightarrow> False"

fun dynamic_for :: "pending_container \<Rightarrow> dynamic_status \<Rightarrow> bool" where
  "dynamic_for p (DPending q) \<longleftrightarrow> q = p"
| "dynamic_for p (DRunning _ q) \<longleftrightarrow> q = p"
| "dynamic_for p (DFailed _) \<longleftrightarrow> True"
| "dynamic_for p (DRunningPrior _) \<longleftrightarrow> False"

definition registered :: "'w sys \<Rightarrow> pending_container \<Rightarrow> bool" where
  "registered s p \<longleftrightarrow> (pend_is_static p \<longrightarrow>
     (case pend_static_management_policy p of
        Some Internal \<Rightarrow> (\<exists>c. map_of (internals s) (pend_name p) = Some c \<and> internal_for p (int_status c))
      | Some Dynamic \<Rightarrow> (\<exists>st. map_of (dynamics s) (pend_name p) = Some st \<and> dynamic_for p st)
      | _ \<Rightarrow> True))"

lemma registries_unchanged:
  assumes "internals t = internals s" and "dynamics t = dynamics s" and "statics_ok s"
  shows "statics_ok t \<and> (\<forall>p. registered s p \<longrightarrow> registered t p)"
proof -
  have "registered t p = registered s p" for p unfolding registered_def assms(1,2) by (rule refl)
  moreover have "statics_ok t = statics_ok s" unfolding statics_ok_def assms(1,2) by (rule refl)
  ultimately show ?thesis using assms(3) by simp
qed

lemma registered_mono:
  assumes "registered s p"
    and "\<And>c. map_of (internals s) (pend_name p) = Some c \<Longrightarrow> internal_for p (int_status c) \<Longrightarrow>
      \<exists>c'. map_of (internals t) (pend_name p) = Some c' \<and> internal_for p (int_status c')"
    and "\<And>st. map_of (dynamics s) (pend_name p) = Some st \<Longrightarrow> dynamic_for p st \<Longrightarrow>
      \<exists>st'. map_of (dynamics t) (pend_name p) = Some st' \<and> dynamic_for p st'"
  shows "registered t p"
  using assms unfolding registered_def by (fastforce split: option.splits static_management_policy.splits)

text \<open>A start that changes a registry at all turns the entry of its container into one of its results.\<close>

lemma dynamic_start_effect:
  assumes "lawful_waits d" and "dynamic_start d p s = (x, s')"
  obtains "internals s' = internals s" "dynamics s' = dynamics s"
  | q st where "map_of (dynamics s) (pend_name p) = Some (DPending q)" "internals s' = internals s"
      "dynamics s' = AList.update (pend_name p) st (dynamics s)"
      "(\<exists>r. st = DRunning r q \<and> x = Ok r \<and> same_container q r) \<or> (\<exists>e. st = DFailed e \<and> x = Err e)"
proof (cases "\<exists>q. map_of (dynamics s) (pend_name p) = Some (DPending q)")
  case True
  then obtain q where q: "map_of (dynamics s) (pend_name p) = Some (DPending q)" by blast
  obtain y t where y: "start_container_inner d q s = (y, t)" by (cases "start_container_inner d q s")
  have t: "internals t = internals s" "dynamics t = dynamics s"
    using within_same [OF same_start_container_inner [OF assms(1)] y] by (simp_all add: registries_def)
  show thesis
  proof (cases y)
    case (Ok r)
    then have "same_container q r" using start_container_inner_Ok [OF assms(1)] y by blast
    with Ok q y t assms(2) show thesis
      by (intro that(2) [OF q, of "DRunning r q"])
         (auto simp: dynamic_start_def insert_dynamic_def reads_def modify_def ret_defs)
  next
    case (Err e)
    with q y t assms(2) show thesis
      by (intro that(2) [OF q, of "DFailed e"])
         (auto simp: dynamic_start_def insert_dynamic_def reads_def modify_def ret_defs)
  next
    case (Panic e)
    with q y t assms(2) show thesis
      by (intro that(1)) (auto simp: dynamic_start_def reads_def)
  qed
next
  case False
  with assms(2) show thesis
    by (intro that(1))
       (auto simp: dynamic_start_def reads_def ret_defs split: option.splits dynamic_status.splits)
qed

lemma same_internal_start:
  assumes "lawful_waits d"
  shows "within (same dynamics) (internal_start d p)"
proof -
  have "within (same dynamics) (start_container_inner d q)" for q
    using same_start_container_inner [OF assms] by (simp add: within_def same_def registries_def)
  then show ?thesis
    unfolding internal_start_def set_internal_status_def
    by (intro same_rules) (auto intro!: same_rules split: internal_status.split)
qed

lemma internal_start_keeps_registered:
  assumes d: "lawful_waits d" and ok: "statics_ok s" and p: "registered s p"
    and static: "pend_is_static p" "pend_static_management_policy p = Some Internal"
    and i: "internal_start d p s = (x, s')"
  shows "statics_ok s' \<and> (\<forall>q. registered s q \<longrightarrow> registered s' q) \<and> (\<forall>r. x = Ok r \<longrightarrow> same_container p r)"
proof -
  obtain c where c: "map_of (internals s) (pend_name p) = Some c" "internal_for p (int_status c)"
    using p static by (auto simp: registered_def)
  have e: "internal_entry (int_status c)" using ok c(1) by (simp add: statics_ok_def)
  have dyn: "dynamics s' = dynamics s" using within_same [OF same_internal_start [OF d] i] .
  have ok': "internals_ok (internals s')"
    using internal_start_keeps_ok [OF d i] ok by (simp add: statics_ok_def)
  from d i show ?thesis
  proof (rule internal_start_effect)
    assume same: "internals s' = internals s"
    have "same_container p r" if "x = Ok r" for r
      using i c e that by (cases "int_status c")
        (auto simp: internal_start_def reads_def ret_defs
          dest: start_container_inner_Ok [OF d] elim!: matchR_cases bindR_Ok)
    with registries_unchanged [OF same dyn ok] show ?thesis by simp
  next
    fix c' q st
    assume m: "map_of (internals s) (pend_name p) = Some c'" "int_status c' = IPending q"
      and s': "internals s' = AList.map_entry (pend_name p) (\<lambda>c. c\<lparr>int_status := st\<rparr>) (internals s)"
      and st: "(\<exists>r. st = IOperational r q \<and> x = Ok r \<and> same_container q r)
        \<or> (\<exists>e. st = IFailed e (Some (pend_id p)) \<and> x = Err e)"
    have "q = p" using m c by simp
    moreover have "internal_entry st"
      using st static \<open>q = p\<close> by auto
    ultimately have "statics_ok s'"
      using ok ok' dyn m by (auto simp: statics_ok_def s' map_of_map_entry)
    moreover have status: "q' = p \<Longrightarrow> internal_for q' st" for q' using st \<open>q = p\<close> by auto
    have "registered s' q'" if "registered s q'" for q'
    proof (rule registered_mono [OF that])
      fix k
      assume "map_of (internals s) (pend_name q') = Some k" "internal_for q' (int_status k)"
      moreover have "internal_for q' (int_status c') \<Longrightarrow> internal_for q' st"
        using m(2) status \<open>q = p\<close> by simp
      ultimately show "\<exists>k'. map_of (internals s') (pend_name q') = Some k' \<and> internal_for q' (int_status k')"
        unfolding s' map_of_map_entry using m(1) by auto
    qed (simp add: dyn)
    ultimately show ?thesis using st \<open>q = p\<close> by auto
  qed
qed

lemma dynamic_start_keeps_registered:
  assumes d: "lawful_waits d" and ok: "statics_ok s" and p: "registered s p"
    and static: "pend_is_static p" "pend_static_management_policy p = Some Dynamic"
    and i: "dynamic_start d p s = (x, s')"
  shows "statics_ok s' \<and> (\<forall>q. registered s q \<longrightarrow> registered s' q) \<and> (\<forall>r. x = Ok r \<longrightarrow> same_container p r)"
proof -
  obtain st0 where c: "map_of (dynamics s) (pend_name p) = Some st0" "dynamic_for p st0"
    using p static by (auto simp: registered_def)
  have e: "dynamic_entry (pend_name p) st0" using ok c(1) by (simp add: statics_ok_def)
  from d i show ?thesis
  proof (rule dynamic_start_effect)
    assume same: "internals s' = internals s" "dynamics s' = dynamics s"
    have "same_container p r" if "x = Ok r" for r
      using i c e that by (cases st0)
        (auto simp: dynamic_start_def reads_def ret_defs
          dest: start_container_inner_Ok [OF d] elim!: matchR_cases bindR_Ok)
    with registries_unchanged [OF same ok] show ?thesis by simp
  next
    fix q st
    assume m: "map_of (dynamics s) (pend_name p) = Some (DPending q)" "internals s' = internals s"
      and s': "dynamics s' = AList.update (pend_name p) st (dynamics s)"
      and st: "(\<exists>r. st = DRunning r q \<and> x = Ok r \<and> same_container q r) \<or> (\<exists>e. st = DFailed e \<and> x = Err e)"
    have "q = p" using m c by simp
    moreover have "dynamic_entry (pend_name p) st"
      using st static \<open>q = p\<close> by auto
    ultimately have "statics_ok s'"
      using ok m(2) by (auto simp: statics_ok_def s' update_conv')
    moreover have status: "q' = p \<Longrightarrow> dynamic_for q' st" for q' using st \<open>q = p\<close> by auto
    have "registered s' q'" if "registered s q'" for q'
    proof (rule registered_mono [OF that])
      fix k
      assume "map_of (dynamics s) (pend_name q') = Some k" "dynamic_for q' k"
      moreover have "dynamic_for q' (DPending q) \<Longrightarrow> dynamic_for q' st"
        using status \<open>q = p\<close> by simp
      ultimately show "\<exists>k'. map_of (dynamics s') (pend_name q') = Some k' \<and> dynamic_for q' k'"
        unfolding s' update_conv' using m(1) by auto
    qed (simp add: m(2))
    ultimately show ?thesis using st \<open>q = p\<close> by auto
  qed
qed

lemma static_start_keeps:
  assumes d: "lawful_waits d" and ok: "statics_ok s" and p: "registered s p"
    and st: "start_container d p s = (x, s')"
  shows "statics_ok s' \<and> (\<forall>q. registered s q \<longrightarrow> registered s' q) \<and> (\<forall>r. x = Ok r \<longrightarrow> same_container p r)"
proof (cases "pend_is_static p")
  case False
  then have i: "start_container_inner d p s = (x, s')" using st by (simp add: start_container_def)
  have same: "internals s' = internals s" "dynamics s' = dynamics s"
    using within_same [OF same_start_container_inner [OF d] i] by (simp_all add: registries_def)
  have "\<forall>r. x = Ok r \<longrightarrow> same_container p r"
    using start_container_inner_Ok [OF d] i by blast
  with registries_unchanged [OF same ok] show ?thesis by simp
next
  case True
  then have s: "static_start d p s = (x, s')" using st by (simp add: start_container_def)
  show ?thesis
  proof (cases "pend_static_management_policy p")
    case None
    with s ok show ?thesis by (auto simp: static_start_def ret_defs)
  next
    case (Some m)
    show ?thesis
    proof (cases m)
      case External
      with Some s ok show ?thesis by (auto simp: static_start_def ret_defs)
    next
      case Internal
      with s Some have i: "internal_start d p s = (x, s')" by (simp add: static_start_def)
      show ?thesis using internal_start_keeps_registered [OF d ok p True _ i] Some Internal by simp
    next
      case Dynamic
      with s Some have i: "dynamic_start d p s = (x, s')" by (simp add: static_start_def)
      show ?thesis using dynamic_start_keeps_registered [OF d ok p True _ i] Some Dynamic by simp
    qed
  qed
qed

interpretation registered: starting d "\<lambda>s. statics_ok s \<and> (\<forall>p \<in> P. registered s p)" "{p \<in> P. lawful_waits d}"
  for d P
  by unfold_locales (use static_start_keeps in blast)+

section \<open>What creating a container registers\<close>

lemma create_effect_registers:
  assumes "create_effect n pol m x m'" and "pol = Some Internal" and "internals_ok m"
    and "\<And>k c. map_of m k = Some c \<Longrightarrow> internal_entry (int_status c)"
  shows "(\<forall>k c. map_of m' k = Some c \<longrightarrow> internal_entry (int_status c))
    \<and> (\<forall>k c q. map_of m k = Some c \<longrightarrow> internal_for q (int_status c) \<longrightarrow>
        (\<exists>c'. map_of m' k = Some c' \<and> internal_for q (int_status c')))
    \<and> (\<forall>p. x = Ok p \<longrightarrow> pend_static_management_policy p = Some Internal
        \<and> (\<exists>c. map_of m' (pend_name p) = Some c \<and> internal_for p (int_status c)))"
  using assms(1)
proof cases
  case (joined c p)
  then have "(n, c) \<in> set m" by (auto dest: map_of_SomeD)
  then have "pend_name p = n" using joined(4) by (rule internals_okD(2) [OF assms(3)])
  moreover have "pend_static_management_policy p = Some Internal"
    using assms(4) [OF joined(3)] joined(4) by (simp add: internal_entry_def)
  moreover have "internal_for p (int_status c)" using joined(4) by (cases "int_status c") auto
  ultimately show ?thesis using joined(1-3) assms(4) by (auto simp: bump_def)
qed (use assms in \<open>auto simp: bump_def vacant_def\<close>)

lemma create_dynamic_container_Ok:
  assumes "create_dynamic_container d c nw s = (Ok z, t)"
  shows "case z of CreateRunningPrior r \<Rightarrow> oper_name r = container_name c
    | CreatePending p \<Rightarrow> pend_name p = container_name c
        \<and> pend_static_management_policy p = static_management_policy_of c"
  using assms unfolding create_dynamic_container_def
proof (cases rule: matchR_cases)
  case (1 details s1)
  then show ?thesis
    by (auto elim!: bindR_Ok dest!: running_container_from_composition_Ok simp: ret_defs)
next
  case (2 e s1)
  then show ?thesis
    by (auto elim!: bindR_Ok create_container_inner_Ok simp: ret_defs PendingContainer_new_def
        split: b_error.splits if_splits)
qed simp

lemma join_isolated_registers:
  assumes "bindR (join_isolated d i nw mode) (\<lambda>_. returnR z) s = (x, s')"
  shows "dynamics s' = dynamics s \<and> (\<forall>y. x = Ok y \<longrightarrow> y = z)"
proof -
  obtain u t where u: "join_isolated d i nw mode s = (u, t)" by fastforce
  have "dynamics t = dynamics s" by (rule within_same [OF same_join_isolated u]) simp
  with assms u show ?thesis by (cases u) (auto simp: ret_defs)
qed

lemma dynamic_create_effect:
  assumes "dynamic_create d c nw mode s = (x, s')" and "static_management_policy_of c = Some Dynamic"
  obtains "internals s' = internals s" "dynamics s' = dynamics s" "\<And>p. x = Ok (Pending p) \<Longrightarrow>
      \<exists>st. map_of (dynamics s) (container_name c) = Some st \<and> dynamic_for p st \<and> (\<forall>e. st \<noteq> DFailed e)"
  | st where "internals s' = internals s" "dynamics s' = AList.update (container_name c) st (dynamics s)"
      "map_of (dynamics s) (container_name c) = None" "dynamic_entry (container_name c) st"
      "\<And>p. x = Ok (Pending p) \<Longrightarrow> st = DPending p"
proof (cases "map_of (dynamics s) (container_name c)")
  case None
  obtain y t where y: "create_dynamic_container d c nw s = (y, t)" by (cases "create_dynamic_container d c nw s")
  have t: "internals t = internals s" "dynamics t = dynamics s"
    by (rule within_same [OF same_create_dynamic y]; simp)+
  show thesis
  proof (cases y)
    case (Ok z)
    then have z: "case z of CreateRunningPrior r \<Rightarrow> oper_name r = container_name c
      | CreatePending p \<Rightarrow> pend_name p = container_name c
          \<and> pend_static_management_policy p = static_management_policy_of c"
      using create_dynamic_container_Ok y by blast
    show thesis
    proof (cases z)
      case (CreateRunningPrior r)
      with None Ok y t z assms show thesis
        by (intro that(2) [of "DRunningPrior r"])
           (auto simp: dynamic_create_def insert_dynamic_def reads_def modify_def ret_defs)
    next
      case (CreatePending p)
      with None Ok y t z assms show thesis
        by (intro that(2) [of "DPending p"])
           (auto simp: dynamic_create_def insert_dynamic_def reads_def modify_def ret_defs)
    qed
  qed (use None y t assms in \<open>auto intro!: that(1) simp: dynamic_create_def reads_def\<close>)
next
  case (Some st)
  have int: "internals s' = internals s"
    by (rule within_same [OF same_dynamic_create assms(1)]) simp_all
  show thesis
  proof (rule that(1) [OF int])
    show "dynamics s' = dynamics s"
      using Some assms(1) by (cases st) (auto simp: dynamic_create_def reads_def ret_defs dest: join_isolated_registers [unfolded returnR_def])
    show "\<exists>st. map_of (dynamics s) (container_name c) = Some st \<and> dynamic_for p st \<and> (\<forall>e. st \<noteq> DFailed e)"
      if "x = Ok (Pending p)" for p
      using Some assms(1) that
      by (cases st) (fastforce simp: dynamic_create_def reads_def ret_defs dest: join_isolated_registers [unfolded returnR_def])+
  qed
qed

lemma same_internal_create: "within (same dynamics) (internal_create d c nw mode)"
proof -
  have first: "within (same dynamics) (create_first d c nw)"
    unfolding create_first_def create_internal_container_impl_def insert_internal_def
    by (intro same_rules same_create_container_inner)
       (auto intro!: same_rules same_networks split: option.split)
  have bump: "within (same dynamics) (increment_completion n)" for n
    unfolding increment_completion_def insert_internal_def by (intro same_rules) simp
  have "within (same dynamics) (join_existing d n p nw mode)" for n p
    unfolding join_existing_def
    by (intro same_rules bump) (auto intro!: same_rules same_networks split: option.split network.split)
  with first bump show ?thesis
    unfolding internal_create_def create_internal_container_inner_def
    by (intro same_rules) (auto intro!: same_rules split: internal_status.split)
qed

lemma internal_create_registers:
  assumes ok: "statics_ok s" and static: "static_management_policy_of c = Some Internal"
    and y: "internal_create d c nw mode s = (y, s')" "\<And>p. x = Ok (Pending p) \<Longrightarrow> y = Ok p"
  shows "statics_ok s' \<and> (\<forall>q. registered s q \<longrightarrow> registered s' q) \<and> (\<forall>p. x = Ok (Pending p) \<longrightarrow> registered s' p)"
proof -
  note e = internal_create_effect [OF y(1), unfolded static]
  have dyn: "dynamics s' = dynamics s" by (rule within_same [OF same_internal_create y(1)])
  note r = create_effect_registers [OF e refl]
  have "statics_ok s'"
    using create_effect_ok [OF e] r ok dyn by (simp add: statics_ok_def)
  moreover have "registered s' q" if "registered s q" for q
    using that by (rule registered_mono) (use r ok dyn in \<open>auto simp: statics_ok_def\<close>)
  moreover have "registered s' p" if "x = Ok (Pending p)" for p
    using r ok y(2) [OF that] by (auto simp: statics_ok_def registered_def)
  ultimately show ?thesis by blast
qed

lemma dynamic_create_registers:
  assumes ok: "statics_ok s" and dc: "dynamic_create d c nw mode s = (x, s')" "static_management_policy_of c = Some Dynamic"
  shows "statics_ok s' \<and> (\<forall>q. registered s q \<longrightarrow> registered s' q) \<and> (\<forall>p. x = Ok (Pending p) \<longrightarrow> registered s' p)"
proof -
  from dc show ?thesis
  proof (rule dynamic_create_effect)
    assume same: "internals s' = internals s" "dynamics s' = dynamics s"
      and p: "\<And>p. x = Ok (Pending p) \<Longrightarrow>
        \<exists>st. map_of (dynamics s) (container_name c) = Some st \<and> dynamic_for p st \<and> (\<forall>e. st \<noteq> DFailed e)"
    have "registered s' p" if "x = Ok (Pending p)" for p
    proof -
      obtain st where "map_of (dynamics s) (container_name c) = Some st" "dynamic_for p st" "\<forall>e. st \<noteq> DFailed e"
        using p [OF \<open>x = Ok (Pending p)\<close>] by blast
      moreover from this have "dynamic_entry (container_name c) st" using ok by (simp add: statics_ok_def)
      ultimately show ?thesis using same by (cases st) (auto simp: registered_def)
    qed
    with registries_unchanged [OF same ok] show ?thesis by blast
  next
    fix st
    assume s': "internals s' = internals s" "dynamics s' = AList.update (container_name c) st (dynamics s)"
      and none: "map_of (dynamics s) (container_name c) = None"
      and st: "dynamic_entry (container_name c) st" "\<And>p. x = Ok (Pending p) \<Longrightarrow> st = DPending p"
    have "statics_ok s'" using ok st(1) by (auto simp: statics_ok_def s' update_conv')
    moreover have "registered s' q" if "registered s q" for q
      using that by (rule registered_mono) (use none in \<open>auto simp: s' update_conv'\<close>)
    moreover have "registered s' p" if "x = Ok (Pending p)" for p
      using st that by (auto simp: registered_def s' update_conv')
    ultimately show ?thesis by blast
  qed
qed

lemma own_create_registers:
  assumes ok: "statics_ok s" and cr: "create_container d c nw mode s = (x, s')" and "\<not> is_static c"
  shows "statics_ok s' \<and> (\<forall>q. registered s q \<longrightarrow> registered s' q) \<and> (\<forall>p. x = Ok (Pending p) \<longrightarrow> registered s' p)"
proof -
  have c: "bindR (create_container_inner d c nw) (\<lambda>p. returnR (Pending p)) s = (x, s')"
    using cr assms(3) by (simp add: create_container_def)
  obtain y t where y: "create_container_inner d c nw s = (y, t)" by fastforce
  have "internals t = internals s" "dynamics t = dynamics s"
    by (rule within_same [OF same_create_container_inner y]; simp)+
  moreover have "t = s'" using c y by (cases y) (auto simp: ret_defs)
  moreover have "\<not> pend_is_static p" if "x = Ok (Pending p)" for p
    using c y that assms(3)
    by (cases y) (auto simp: ret_defs PendingContainer_new_def static_management_policy_of_def is_static_def
        elim!: create_container_inner_Ok)
  ultimately show ?thesis
    using registries_unchanged [of s' s] ok by (auto simp: registered_def)
qed

lemma external_create_registers:
  assumes ok: "statics_ok s" and e: "bindR (external_include d c nw mode) (\<lambda>e. returnR (StaticExternal e)) s = (x, s')"
  shows "statics_ok s' \<and> (\<forall>q. registered s q \<longrightarrow> registered s' q) \<and> (\<forall>p. x = Ok (Pending p) \<longrightarrow> registered s' p)"
proof -
  obtain y t where y: "external_include d c nw mode s = (y, t)" by fastforce
  have "internals t = internals s" "dynamics t = dynamics s"
    by (rule within_same [OF same_external_include y]; simp)+
  moreover have "t = s' \<and> (\<forall>p. x \<noteq> Ok (Pending p))" using e y by (cases y) (auto simp: ret_defs)
  ultimately show ?thesis using registries_unchanged [of s' s] ok by auto
qed

lemma create_container_registers:
  assumes ok: "statics_ok s" and cr: "create_container d c nw mode s = (x, s')"
  shows "statics_ok s' \<and> (\<forall>q. registered s q \<longrightarrow> registered s' q) \<and> (\<forall>p. x = Ok (Pending p) \<longrightarrow> registered s' p)"
proof (cases "is_static c")
  case False
  with ok cr show ?thesis by (rule own_create_registers)
next
  case True
  then have st: "static_create d c nw mode s = (x, s')" using cr by (simp add: create_container_def)
  show ?thesis
  proof (cases "static_management_policy_of c")
    case None
    with st ok show ?thesis by (auto simp: static_create_def ret_defs)
  next
    case (Some m)
    show ?thesis
    proof (cases m)
      case External
      with st Some show ?thesis by (intro external_create_registers [OF ok]) (simp add: static_create_def)
    next
      case Internal
      obtain y where y: "internal_create d c nw mode s = (y, s')" "\<And>p. x = Ok (Pending p) \<Longrightarrow> y = Ok p"
        using st Some Internal
        by (cases "internal_create d c nw mode s"; cases "fst (internal_create d c nw mode s)")
           (auto simp: static_create_def ret_defs)
      show ?thesis using internal_create_registers [OF ok _ y] Some Internal by simp
    next
      case Dynamic
      then have dc: "dynamic_create d c nw mode s = (x, s')" "static_management_policy_of c = Some Dynamic"
        using st Some by (simp_all add: static_create_def)
      with dynamic_create_registers [OF ok] show ?thesis by simp
    qed
  qed
qed

lemma run_all_registers:
  assumes "statics_ok s"
    and "run_all (map (\<lambda>c. create_container d c nw mode) cs) s = (Ok rs :: ('f, _) result, s')"
  shows "statics_ok s' \<and> (\<forall>q. registered s q \<longrightarrow> registered s' q)
    \<and> (\<forall>p. Inr (Pending p) \<in> set rs \<longrightarrow> registered s' p)"
  using assms
proof (induction cs arbitrary: s rs)
  case Nil
  then show ?case by (auto simp: ret_defs)
next
  case (Cons c cs)
  obtain x s1 where x: "create_container d c nw mode s = (x, s1)" by fastforce
  note c = create_container_registers [OF Cons.prems(1) x]
  obtain rs' where rs: "run_all (map (\<lambda>c. create_container d c nw mode) cs) s1 = (Ok rs' :: ('f, _) result, s')"
    "rs = (case x of Ok a \<Rightarrow> Inr a | Err e \<Rightarrow> Inl e | Panic p \<Rightarrow> undefined) # rs'" "\<forall>p. x \<noteq> Panic p"
    using Cons.prems(2) x by (cases x) (auto simp: ret_defs elim!: bindR_Ok)
  have "statics_ok s' \<and> (\<forall>q. registered s1 q \<longrightarrow> registered s' q)
    \<and> (\<forall>p. Inr (Pending p) \<in> set rs' \<longrightarrow> registered s' p)"
    using c rs(1) by (intro Cons.IH) auto
  with c rs(2,3) show ?case by (cases x) auto
qed

lemma join_all_registers:
  assumes "statics_ok s"
    and "join_all order (map (\<lambda>c. create_container d c nw mode) cs) s = (Ok rs :: ('f, _) result, s')"
  shows "statics_ok s' \<and> (\<forall>q. registered s q \<longrightarrow> registered s' q)
    \<and> (\<forall>p. Inr (Pending p) \<in> set rs \<longrightarrow> registered s' p)"
proof -
  let ?ms = "map (\<lambda>c. create_container d c nw mode) cs"
  obtain ks rs' where r: "run_all (map ((!) ?ms) (in_order ks (length ?ms))) s = (Ok rs' :: ('f, _) result, s')"
    "rs = by_index (in_order ks (length ?ms)) rs' (length ?ms)" "length rs' = length ?ms"
    using assms(2) by (rule join_all_Ok)
  have "map ((!) ?ms) (in_order ks (length ?ms)) = map (\<lambda>c. create_container d c nw mode) (map ((!) cs) (in_order ks (length ?ms)))"
    by simp
  from run_all_registers [OF assms(1) r(1) [unfolded this]] r(2,3) show ?thesis
    by (simp add: by_index_in_order(1))
qed

text \<open>Every container that \<open>ignite\<close> created is registered, whether or not others failed.\<close>

lemma ignite_registers:
  assumes "statics_ok s" and "ignite d nw mode e s = (x, s')" and "x = Ok e' \<or> x = Err e'"
  shows "statics_ok s' \<and> (\<forall>p \<in> set (pending_of (eng_phase e')). registered s' p)"
proof -
  obtain rs where rs: "join_all (poll_order d) (map (\<lambda>c. create_container d c (Some nw) mode) (eng_phase e)) s
      = (Ok rs :: (transitional list engine, _) result, s')" "eng_phase e' = map transitional_of rs"
  proof -
    obtain y t where y: "join_all (poll_order d) (map (\<lambda>c. create_container d c (Some nw) mode) (eng_phase e)) s
      = (y :: (transitional list engine, _) result, t)" by fastforce
    show thesis
    proof (cases y)
      case (Ok rs)
      with that [of rs] y assms(2,3) show thesis
        by (auto simp: ignite_def Let_def ret_defs split: if_splits)
    qed (use y assms(2,3) in \<open>auto simp: ignite_def join_all_no_error\<close>)
  qed
  have "Inr (Pending p) \<in> set rs" if "p \<in> set (pending_of (eng_phase e'))" for p
    using that rs(2)
    by (auto simp: set_pending_of transitional_of_def split: sum.splits created_container.splits)
  with join_all_registers [OF assms(1) rs(1)] show ?thesis by blast
qed

text \<open>The start of the containers that \<open>ignite\<close> created.\<close>

lemma orbiting_placed:
  assumes "lawful_waits d" and "statics_ok s" and "\<forall>p \<in> set (pending_of (eng_phase e)). registered s p"
    and "orbiting d sched e s = (Ok e', s')"
    and "distinct (map pend_id (pending_of (eng_phase e)))"
    and "pend_handle ` set (pending_of (eng_phase e)) \<inter> ext_handle ` set (external_refs (eng_phase e)) = {}"
  shows "eng_keeper e' = eng_keeper e \<and> length (eng_phase e') = length (eng_phase e) \<and> statics_ok s'
    \<and> (\<forall>i < length (eng_phase e). case eng_phase e ! i of
        TPending p \<Rightarrow> \<exists>r. eng_phase e' ! i = TRunning r \<and> same_container p r
      | TStaticExternal x \<Rightarrow> eng_phase e' ! i = TStaticExternal x
          \<or> (\<exists>r. eng_phase e' ! i = TRunning r \<and> oper_handle r = ext_handle x)
      | t \<Rightarrow> eng_phase e' ! i = t)"
proof -
  let ?P = "set (pending_of (eng_phase e))"
  obtain kept' where k: "start_containers d sched (eng_phase e) s = (Ok kept', s')"
    "e' = e\<lparr>eng_phase := kept'\<rparr>"
    using assms(4) by (auto simp: orbiting_def ret_defs elim!: matchR_cases)
  have inv: "statics_ok s \<and> (\<forall>p \<in> ?P. registered s p)" and ours: "?P \<subseteq> {p \<in> ?P. lawful_waits d}"
    using assms(1-3) by auto
  note placed = registered.start_containers_placed [OF k(1) inv ours assms(5,6)]
  have e': "eng_phase e' = kept'" "eng_keeper e' = eng_keeper e" using k(2) by simp_all
  show ?thesis
    unfolding e' using placed registered.start_containers_Ok [OF k(1) inv ours]
      registered.start_containers_length [OF k(1) inv ours] by blast
qed

section \<open>Properties\<close>

text \<open>
  C4: from the creation of the containers to their start, whatever the schedule of the spawned tasks
  and whether a container is the test's own, shared, or dynamic: when both phases succeed, at each
  index the created container is replaced by the running container with its own identifier, name and
  handle, a static external one stays or becomes the running container of its handle, and nothing
  else moves. So a handle still leads to the container it was given for.
\<close>

theorem started_in_place:
  assumes "lawful_waits d" and "statics_ok s"
    and "ignite d nw mode e0 s = (Ok e, s1)" and "orbiting d sched e s1 = (Ok e', s')"
    and "distinct (map pend_id (pending_of (eng_phase e)))"
    and "pend_handle ` set (pending_of (eng_phase e)) \<inter> ext_handle ` set (external_refs (eng_phase e)) = {}"
  shows "eng_keeper e' = eng_keeper e \<and> length (eng_phase e') = length (eng_phase e)
    \<and> (\<forall>i < length (eng_phase e). case eng_phase e ! i of
        TPending p \<Rightarrow> \<exists>r. eng_phase e' ! i = TRunning r \<and> same_container p r
      | TStaticExternal x \<Rightarrow> eng_phase e' ! i = TStaticExternal x
          \<or> (\<exists>r. eng_phase e' ! i = TRunning r \<and> oper_handle r = ext_handle x)
      | t \<Rightarrow> eng_phase e' ! i = t)"
  using ignite_registers [OF assms(2,3)] orbiting_placed [OF assms(1) _ _ assms(4-6)] by blast

text \<open>
  C13: creating and starting containers keeps the registries of static containers consistent: every
  shared container is registered under its own name with a positive counter and a running one is the
  running form of the container that was created, and likewise for the dynamic ones; and what a test
  was given stays registered through everything that is created or started after it.
\<close>

theorem registries_consistent:
  assumes "statics_ok s" and "lawful_waits d"
  shows "(create_container d c nw mode s = (x, s') \<longrightarrow> statics_ok s' \<and> (registered s q \<longrightarrow> registered s' q)
      \<and> (x = Ok (Pending p) \<longrightarrow> registered s' p))
    \<and> (registered s p \<longrightarrow> start_container d p s = (y, s'') \<longrightarrow> statics_ok s'' \<and> (registered s q \<longrightarrow> registered s'' q)
      \<and> (y = Ok r \<longrightarrow> same_container p r))"
  using create_container_registers [OF assms(1), of d c nw mode x s']
    static_start_keeps [OF assms(2,1), of p y s''] by blast

end
