(* ===== verification/Phases.thy ===== *)
theory Phases
  imports Runner Starting
begin

text \<open>
  Facts about single phases of a test that the properties of the whole share: which requests
  \<open>ignite\<close>, \<open>orbiting\<close>, \<open>inspect\<close> and the handling of logs of \<open>src/engine.rs\<close> send, what they leave
  alone, and when they cannot fail or panic.
\<close>

section \<open>Requests of the phases before the teardown\<close>

definition setup_request :: "request \<Rightarrow> bool" where
  "setup_request r \<longleftrightarrow> (case r of
     InspectContainer _ \<Rightarrow> True | CreateContainer _ _ \<Rightarrow> True | StartContainer _ \<Rightarrow> True
   | RemoveContainer _ force volumes \<Rightarrow> force \<and> \<not> volumes
   | ConnectNetwork _ _ \<Rightarrow> True | ContainerLogs _ _ _ _ \<Rightarrow> True
   | InspectImage _ \<Rightarrow> True | CreateImage _ _ _ \<Rightarrow> True | _ \<Rightarrow> False)"

lemma setup_request_simps [simp]:
  "setup_request (InspectContainer n)" "setup_request (CreateContainer n b)" "setup_request (StartContainer n)"
  "setup_request (RemoveContainer n x y) \<longleftrightarrow> x \<and> \<not> y" "setup_request (ConnectNetwork n i)"
  "setup_request (ContainerLogs i w x y)" "setup_request (InspectImage i)" "setup_request (CreateImage i t a)"
  "\<not> setup_request (RemoveNetwork n)" "\<not> setup_request (RemoveVolume v x)" "\<not> setup_request (StopContainer n)"
  "\<not> setup_request (CreateNetwork n)" "\<not> setup_request (DisconnectNetwork n i x)"
  by (simp_all add: setup_request_def)

lemma observing_setup: "observing r \<Longrightarrow> setup_request r"
  by (auto simp: observing_def split: request.splits)

lemma issues_create_container: "issues setup_request (create_container d c nw mode)"
  unfolding create_container_def static_create_def
  by (intro trace.rules issues_create_container_inner)
     (auto intro!: issues_rules issues_internal_create issues_external_include issues_dynamic_create
       split: static_management_policy.split)

lemma issues_ignite: "issues setup_request (ignite d nw mode e)"
  unfolding ignite_def Let_def
  by (intro issues_rules) (auto intro: issues_create_container)

lemma issues_start_container:
  assumes "lawful_waits d"
  shows "issues setup_request (start_container d p)"
proof -
  note i = issues_start_container_inner [OF assms observing_setup]
  have "issues setup_request (internal_start d p)"
    unfolding internal_start_def set_internal_status_def
    by (intro issues_rules) (auto intro!: issues_rules i split: internal_status.split)
  moreover have "issues setup_request (dynamic_start d p)"
    by (intro issues_dynamic_start assms) (simp_all add: observing_setup)
  ultimately show ?thesis
    unfolding start_container_def static_start_def
    by (intro issues_rules i) (auto intro!: issues_rules split: static_management_policy.split)
qed

text \<open>
  The start of the containers is within every effect order that the start of one container and the
  reading of the state are within.
\<close>

lemma within_start_containers:
  fixes rel :: "'w sys \<Rightarrow> 'w sys \<Rightarrow> bool"
  assumes "effect_order rel" and st: "\<And>p. within rel (start_container d p)"
  shows "within rel (run_tasks d ks tasks)"
    and "within rel (start_strict_containers d sch tasks cs)"
    and "within rel (start_containers d sched kept)"
    and "within rel (orbiting d sched e)"
proof -
  note rules = effect_order.rules [OF assms(1)]
  have refl: "rel s s" for s using assms(1) by (rule effect_order.rel_refl)
  have one: "within rel (run_task d tasks k)" for tasks k
  proof
    fix s
    have "rel s (snd (start_container d p s))" for p using st by (simp add: within_def)
    then show "rel s (snd (run_task d tasks k s))"
      by (auto simp: run_task_def ret_defs refl split: start_task.split prod.split result.split)
         (metis snd_conv)+
  qed
  show tasks: "within rel (run_tasks d ks tasks)" for ks tasks
    by (induction ks arbitrary: tasks) (auto intro!: rules one)
  show strict: "within rel (start_strict_containers d sch tasks cs)" for sch tasks cs
    by (induction cs arbitrary: sch tasks) (auto intro!: rules tasks st)
  have "within rel static_external_containers"
    unfolding static_external_containers_def external_containers_list_def prior_running_containers_def
    by (intro rules)
  then show starts: "within rel (start_containers d sched kept)" for sched kept
    unfolding start_containers_def wait_for_relaxed_containers_def Let_def
    by (intro rules strict tasks)
  show "within rel (orbiting d sched e)"
    unfolding orbiting_def by (intro rules starts)
qed

lemma issues_orbiting: "lawful_waits d \<Longrightarrow> issues setup_request (orbiting d sched e)"
  by (intro within_start_containers trace.effect_order_axioms issues_start_container)


text \<open>The map of the shared containers stays well formed through every phase.\<close>

definition keeps_ok :: "'w sys \<Rightarrow> 'w sys \<Rightarrow> bool" where
  "keeps_ok s t \<longleftrightarrow> (internals_ok (internals s) \<longrightarrow> internals_ok (internals t))"

interpretation well_formed: effect_order keeps_ok
  by unfold_locales (simp_all add: keeps_ok_def)

lemma same_keeps_ok: "within (same internals) m \<Longrightarrow> within keeps_ok m"
  by (simp add: within_def same_def keeps_ok_def)

lemma create_container_ok: "within keeps_ok (create_container d c nw mode)"
proof -
  have "within keeps_ok (internal_create d c nw mode)"
  proof
    fix s
    show "keeps_ok s (snd (internal_create d c nw mode s))"
      using create_effect_ok [OF internal_create_effect [of d c nw mode s]]
      by (cases "internal_create d c nw mode s") (simp add: keeps_ok_def)
  qed
  then show ?thesis
    unfolding create_container_def static_create_def
    by (intro well_formed.rules same_keeps_ok [OF same_create_container_inner])
       (auto intro!: well_formed.rules same_keeps_ok [OF same_external_include] same_keeps_ok [OF same_dynamic_create]
         split: static_management_policy.split)
qed

lemma ignite_ok: "within keeps_ok (ignite d nw mode e)"
  unfolding ignite_def Let_def by (intro well_formed.rules) (auto intro: create_container_ok)

lemma start_container_ok:
  assumes "lawful_waits d"
  shows "within keeps_ok (start_container d p)"
proof -
  have "within keeps_ok (internal_start d q)" for q
  proof
    fix s
    show "keeps_ok s (snd (internal_start d q s))"
      using internal_start_keeps_ok [OF assms, of q s]
      by (cases "internal_start d q s") (simp add: keeps_ok_def)
  qed
  moreover have inner: "within keeps_ok (start_container_inner d q)" for q
    using same_start_container_inner [OF assms]
    by (intro same_keeps_ok) (simp add: within_def same_def registries_def)
  moreover have "within keeps_ok (dynamic_start d q)" for q
    unfolding dynamic_start_def insert_dynamic_def
    by (intro well_formed.rules)
       (auto intro!: well_formed.rules inner simp: keeps_ok_def split: dynamic_status.split)
  ultimately show ?thesis
    unfolding start_container_def static_start_def
    by (intro well_formed.rules) (auto intro!: well_formed.rules split: static_management_policy.split)
qed

lemma orbiting_ok: "lawful_waits d \<Longrightarrow> within keeps_ok (orbiting d sched e)"
  by (intro within_start_containers well_formed.effect_order_axioms start_container_ok)

section \<open>Inspection and logs\<close>

definition same_identity :: "operational_container \<Rightarrow> operational_container \<Rightarrow> bool" where
  "same_identity r r' \<longleftrightarrow> oper_id r' = oper_id r \<and> oper_name r' = oper_name r \<and> oper_handle r' = oper_handle r
     \<and> oper_is_static r' = oper_is_static r \<and> oper_log_options r' = oper_log_options r
     \<and> oper_assumed_state r' = oper_assumed_state r"

fun inspected :: "transitional \<Rightarrow> transitional \<Rightarrow> bool" where
  "inspected (TRunning r) t \<longleftrightarrow> (\<exists>r'. t = TRunning r' \<and> same_identity r r')"
| "inspected x t \<longleftrightarrow> t = x"

lemma same_get_container_ip_and_ports:
  "(\<And>s w c. g (s\<lparr>world := w, calls := c\<rparr>) = g s) \<Longrightarrow> within (same g) (get_container_ip_and_ports d cid nw)"
  unfolding get_container_ip_and_ports_def unwrap_none_def
  by (intro same_rules) (auto intro!: same_rules split: option.split)

lemma issues_get_container_ip_and_ports:
  "R (InspectContainer cid) \<Longrightarrow> issues R (get_container_ip_and_ports d cid nw)"
  unfolding get_container_ip_and_ports_def unwrap_none_def
  by (intro issues_rules) (auto intro!: issues_rules split: option.split)

lemma inspect_kept_effect:
  assumes "inspect_kept d nw ts s = (Ok (ts', errors), s')"
  shows "list_all2 inspected ts ts'"
  using assms
proof (induction ts arbitrary: s ts' errors)
  case Nil
  then show ?case by (simp add: ret_defs)
next
  case (Cons t ts)
  from Cons.prems Cons.IH show ?case
    by (cases t)
       (force simp: same_identity_def ret_defs elim!: matchR_cases bindR_Ok split: prod.splits)+
qed

lemma inspect_effect:
  assumes "inspect d nw e s = (Ok (e', errors) :: ('e, _) result, s')"
  shows "eng_keeper e' = eng_keeper e \<and> list_all2 inspected (eng_phase e) (eng_phase e')"
proof -
  obtain kept where "inspect_kept d nw (eng_phase e) s = (Ok (kept, errors) :: ('e, _) result, s')"
    "e' = e\<lparr>eng_phase := kept\<rparr>"
    using assms by (auto simp: inspect_def ret_defs elim!: bindR_Ok split: prod.splits)
  then show ?thesis using inspect_kept_effect by auto
qed

lemma inspect_kept_frames:
  "issues observing (inspect_kept d nw ts)"
  "within (same internals) (inspect_kept d nw ts)"
proof -
  show "issues observing (inspect_kept d nw ts)"
    by (induction d nw ts rule: inspect_kept.induct)
       (auto intro!: issues_rules issues_get_container_ip_and_ports)
  show "within (same internals) (inspect_kept d nw ts)"
    by (induction d nw ts rule: inspect_kept.induct)
       (auto intro!: same_rules same_get_container_ip_and_ports)
qed

lemma inspect_frames:
  "issues observing (inspect d nw e)" "within (same internals) (inspect d nw e)"
  unfolding inspect_def
  by (intro issues_rules inspect_kept_frames) (intro same_rules inspect_kept_frames)

lemma inspect_no_error: "inspect d nw e s \<noteq> (Err (x :: 'e), s')"
proof -
  have "inspect_kept d nw ts s \<noteq> (Err y, s')" for ts s s' and y :: 'e
    by (induction d nw ts arbitrary: s rule: inspect_kept.induct)
       (auto simp: ret_defs bindR_def elim!: matchR_cases split: prod.splits)
  then show ?thesis
    by (auto simp: inspect_def ret_defs bindR_def elim!: matchR_cases split: prod.splits)
qed

text \<open>Actions that cannot panic.\<close>

definition calm :: "('s, 'e, 'a) action \<Rightarrow> bool" where
  "calm m \<longleftrightarrow> (\<forall>s p. fst (m s) \<noteq> Panic p)"

lemma calmD: "calm m \<Longrightarrow> m s \<noteq> (Panic p, s')"
  by (auto simp: calm_def dest: spec [of _ s])

lemma calm_rules:
  "calm (returnR a)" "calm (failR e)" "calm (issue r f)" "calm (issue_stream r g)" "calm (in_world h)"
  "calm m \<Longrightarrow> (\<And>a. calm (ok a)) \<Longrightarrow> (\<And>e. calm (err e)) \<Longrightarrow> calm (matchR m ok err)"
  "calm m \<Longrightarrow> (\<And>a. calm (k a)) \<Longrightarrow> calm (bindR m k)"
  "calm m \<Longrightarrow> calm (map_err e2 m)"
  by (simp_all add: calm_def action_defs issue_def issue_stream_def in_world_def
      split: prod.split result.split sum.split) (metis fst_conv)+

lemma calm_handle_log: "calm (handle_log d c a src)"
proof -
  have "calm (handle_log_line d a e f)" for e f
    by (cases a) (auto simp: write_to_def intro!: calm_rules split: message_source.split option.split)
  then show ?thesis
    unfolding handle_log_def Let_def container_logs_def
    by (intro calm_rules) (auto intro!: calm_rules split: log_action.split next_item.split sum.split)
qed

text \<open>Actions that always finish with a value.\<close>

definition total :: "('s, 'e, 'a) action \<Rightarrow> bool" where
  "total m \<longleftrightarrow> (\<forall>s. \<exists>a s'. m s = (Ok a, s'))"

lemma totalE:
  assumes "total m"
  obtains a s' where "m s = (Ok a, s')"
  using assms unfolding total_def by blast

lemma total_rules:
  "total (returnR a)" "total (in_world h)" "total (modify g)"
  "(\<And>x. total (n x)) \<Longrightarrow> total (reads f n)"
  "total m \<Longrightarrow> (\<And>a. total (k a)) \<Longrightarrow> total (bindR m k)"
  "calm c \<Longrightarrow> (\<And>a. total (ok a)) \<Longrightarrow> (\<And>e. total (err e)) \<Longrightarrow> total (matchR c ok err)"
proof -
  show "total m \<Longrightarrow> (\<And>a. total (k a)) \<Longrightarrow> total (bindR m k)"
    unfolding total_def by (metis bindR_eq(1))
  show "calm c \<Longrightarrow> (\<And>a. total (ok a)) \<Longrightarrow> (\<And>e. total (err e)) \<Longrightarrow> total (matchR c ok err)"
    unfolding total_def calm_def by (metis fst_conv matchR_eq(1,2) result.exhaust surj_pair)
qed (simp_all add: total_def action_defs in_world_def split: prod.split)

lemma total_logs:
  "total (handle_logs d failed cs errors)" "total (handle_startup_logs d cs errors)"
proof -
  have l: "total (forward_log d c l errors)" for d c l errors
    unfolding forward_log_def by (intro total_rules calm_handle_log)
  show "total (handle_logs d failed cs errors)"
    by (induction d failed cs errors rule: handle_logs.induct)
       (auto intro!: total_rules l split: option.split log_policy.split)
  show "total (handle_startup_logs d cs errors)"
    by (induction d cs errors rule: handle_startup_logs.induct)
       (auto intro!: total_rules l split: option.split)
qed

lemma same_logs:
  assumes g: "\<And>s w c. g (s\<lparr>world := w, calls := c\<rparr>) = g s"
  shows "within (same g) (handle_logs d failed cs errors)" "within (same g) (handle_startup_logs d cs errors)"
proof -
  have l: "within (same g) (forward_log d c l errors)" for d c l errors
    unfolding forward_log_def by (intro same_rules same_handle_log g)
  show "within (same g) (handle_logs d failed cs errors)"
    by (induction d failed cs errors rule: handle_logs.induct)
       (auto intro!: same_rules l split: option.split log_policy.split)
  show "within (same g) (handle_startup_logs d cs errors)"
    by (induction d cs errors rule: handle_startup_logs.induct)
       (auto intro!: same_rules l split: option.split)
qed

lemma issues_logs:
  "issues log_requests (handle_logs d failed cs errors)" "issues log_requests (handle_startup_logs d cs errors)"
proof -
  have l: "issues log_requests (forward_log d c l errors)" for d c l errors
    unfolding forward_log_def by (intro issues_rules issues_handle_log)
  show "issues log_requests (handle_logs d failed cs errors)"
    by (induction d failed cs errors rule: handle_logs.induct)
       (auto intro!: issues_rules l split: option.split log_policy.split)
  show "issues log_requests (handle_startup_logs d cs errors)"
    by (induction d cs errors rule: handle_startup_logs.induct)
       (auto intro!: issues_rules l split: option.split)
qed

text \<open>
  The daemon's answer to an inspection has the network settings of the container, with its networks
  and their addresses (empty ones for a container that has exited).
\<close>

definition complete_inspections :: "'w bollard \<Rightarrow> bool" where
  "complete_inspections d \<longleftrightarrow> (\<forall>n w r w'. b_inspect_container d n w = (Inr r, w') \<longrightarrow>
     (\<exists>st nets. ir_network_settings r = Some st \<and> ns_networks st = Some nets \<and> None \<notin> snd ` set nets))"

lemma calm_inspect:
  assumes "complete_inspections d"
  shows "calm (inspect d nw e)"
proof -
  have one: "calm (get_container_ip_and_ports d cid nw)" for cid
    unfolding calm_def
  proof (intro allI notI)
    fix s p
    assume p: "fst (get_container_ip_and_ports d cid nw s) = Panic p"
    obtain y t where y: "map_err (\<lambda>e. Daemon (''failed to inspect container: '' @ b_display d e))
        (issue (InspectContainer cid) (b_inspect_container d cid)) s = (y, t)"
      by fastforce
    show False
    proof (cases y)
      case (Ok details)
      then have "fst (b_inspect_container d cid (world s)) = Inr details"
        using y by (auto simp: map_err_issue split: sum.splits)
      then obtain st nets where st: "ir_network_settings details = Some st" "ns_networks st = Some nets"
        "None \<notin> snd ` set nets"
        using assms unfolding complete_inspections_def by (metis prod.collapse)
      have "map_of nets nw \<noteq> Some None" using st(3) by (force dest: map_of_SomeD)
      with p y Ok st(1,2) show False
        by (auto simp: get_container_ip_and_ports_def liftE_def ret_defs bindR_def matchR_def
            split: option.splits sum.splits)
    next
      case (Panic q)
      with y show False by (auto simp: map_err_issue split: sum.splits)
    qed (use y p in \<open>simp add: get_container_ip_and_ports_def\<close>)
  qed
  have "calm (inspect_kept d nw ts)" for ts
  proof (induction ts)
    case (Cons x xs)
    then show ?case by (cases x) (auto intro!: calm_rules one split: prod.split)
  qed (simp add: calm_rules)
  then show ?thesis unfolding inspect_def by (auto intro!: calm_rules)
qed

lemma issues_spawn_body: "issues R m \<Longrightarrow> issues R (spawn_body m)"
  by (auto simp: within_def spawn_body_def split: prod.split result.split) (metis snd_conv)+

end
