(* ===== verification/Teardown.thy ===== *)
theory Teardown
  imports Phases
begin

text \<open>
  The teardown of a test (\<open>src/runner.rs\<close>): exactly which requests it sends, and that it stays within
  every effect order that those requests and the release of the shared containers stay within.
\<close>

section \<open>Teardown\<close>

text \<open>The containers of the test itself, and the network it made.\<close>

definition own_containers :: "debris engine \<Rightarrow> string list" where
  "own_containers e = map clean_id (filter (\<lambda>c. \<not> clean_is_static c) (deb_kept (eng_phase e)))"

definition static_ids :: "debris engine \<Rightarrow> string list" where
  "static_ids e = map clean_id (filter clean_is_static (deb_kept (eng_phase e))) @ map ext_id (deb_external (eng_phase e))"

definition network_removal :: "runner \<Rightarrow> request list" where
  "network_removal r = (if dt_network (r_config r) = Isolated
     then (case dt_container_id (r_config r) of
             Some cid \<Rightarrow> [DisconnectNetwork (r_network r) cid True] | None \<Rightarrow> [])
          @ [RemoveNetwork (r_network r)]
     else [])"

lemma delete_network_calls:
  assumes "delete_network d nw self s = (q, s')"
  shows "q = Ok () \<and> calls s' = calls s
    @ (case self of Some cid \<Rightarrow> [DisconnectNetwork nw cid True] | None \<Rightarrow> []) @ [RemoveNetwork nw]"
proof -
  obtain s1 where 1: "(case self of
        Some cid \<Rightarrow> ignore_err (issue (DisconnectNetwork nw cid True) (b_disconnect_network d nw cid True))
      | None \<Rightarrow> returnR ()) s = (Ok (), s1)"
    "calls s1 = calls s @ (case self of Some cid \<Rightarrow> [DisconnectNetwork nw cid True] | None \<Rightarrow> [])"
  proof (cases self)
    case (Some cid)
    obtain t where "ignore_err (issue (DisconnectNetwork nw cid True) (b_disconnect_network d nw cid True)) s = (Ok (), t)"
      "calls t = calls s @ [DisconnectNetwork nw cid True]"
      by (rule ignore_err_issue)
    with Some that show ?thesis by simp
  qed (use that in \<open>simp add: returnR_def\<close>)
  obtain s2 where "ignore_err (issue (RemoveNetwork nw) (b_remove_network d nw)) s1 = (Ok (), s2)"
    "calls s2 = calls s1 @ [RemoveNetwork nw]"
    by (rule ignore_err_issue)
  with 1 assms show ?thesis by (simp add: delete_network_def)
qed

lemma teardown_network_calls:
  assumes "teardown_network d r s = (q, s')"
  shows "q = Ok () \<and> calls s' = calls s @ network_removal r"
  using assms delete_network_calls [of d "r_network r" "dt_container_id (r_config r)" s q s']
  by (auto simp: teardown_network_def network_removal_def ret_defs split: network.splits)

lemma remove_everything_calls:
  assumes "remove_everything d r e s = (q, s')"
  obtains removals volumes where "q = Ok ()" and "calls s' = calls s @ removals @ network_removal r @ volumes"
    and "mset removals = mset (map (\<lambda>i. RemoveContainer i True True) (own_containers e))"
    and "mset volumes = mset (map (\<lambda>v. RemoveVolume v True) (r_named_volumes r))"
proof -
  obtain q1 s1 where 1: "remove_containers d (cleanup_containers e) s = (q1, s1)" by fastforce
  obtain q2 s2 where 2: "teardown_network d r s1 = (q2, s2)" by fastforce
  obtain q3 s3 where 3: "remove_volumes d (r_named_volumes r) s2 = (q3, s3)" by fastforce
  obtain removals where r: "q1 = Ok ()" "calls s1 = calls s @ removals"
    "mset removals = mset (map (\<lambda>i. RemoveContainer i True True) (own_containers e))"
    using 1 by (rule remove_containers_calls) (simp add: own_containers_def cleanup_containers_def comp_def)
  obtain volumes where v: "q3 = Ok ()" "calls s3 = calls s2 @ volumes"
    "mset volumes = mset (map (\<lambda>v. RemoveVolume v True) (r_named_volumes r))"
    using 3 by (rule remove_volumes_calls)
  show thesis
    using that [of removals volumes] assms 1 2 3 r v teardown_network_calls [OF 2]
    by (simp add: remove_everything_def)
qed

lemma stop_everything_calls:
  assumes "bindR (stop_containers d (cleanup_containers e)) (\<lambda>_. teardown_network d r) s = (q, s')"
  obtains stops where "q = Ok ()" and "calls s' = calls s @ stops @ network_removal r"
    and "mset stops = mset (map StopContainer (own_containers e))"
proof -
  obtain q1 s1 where 1: "stop_containers d (cleanup_containers e) s = (q1, s1)" by fastforce
  obtain stops where t: "q1 = Ok ()" "calls s1 = calls s @ stops"
    "mset stops = mset (map StopContainer (own_containers e))"
    using 1 by (rule stop_containers_calls) (simp add: own_containers_def cleanup_containers_def comp_def)
  show thesis
    using that [of stops] assms 1 t teardown_network_calls [of d r s1 q s'] by simp
qed

lemma disconnect_static_effect:
  assumes "internals_ok (internals s)"
    and "disconnect_static_containers d nw mode e s = (x, s')"
  shows "x = Ok () \<and> calls s' = calls s @ static_requests nw mode (static_ids e) s"
  using assms static_cleanup_effect [of s d nw mode "static_ids e" x s']
  by (simp add: disconnect_static_containers_def static_ids_def)

text \<open>What the prune strategy asks for, after the static containers have been released.\<close>

lemma pruned:
  assumes "(case env_prune_strategy d of
       RunningRegardless \<Rightarrow> returnR ()
     | RunningOnFailure \<Rightarrow> if failed then returnR () else remove_everything d r e
     | StopOnFailure \<Rightarrow>
         if failed then bindR (stop_containers d (cleanup_containers e)) (\<lambda>_. teardown_network d r)
         else remove_everything d r e
     | RemoveRegardless \<Rightarrow> remove_everything d r e) s1 = (x, s')"
  shows "x = Ok () \<and> (\<exists>stops removals volumes. mset stops = mset (map StopContainer (own_containers e))
    \<and> mset removals = mset (map (\<lambda>i. RemoveContainer i True True) (own_containers e))
    \<and> mset volumes = mset (map (\<lambda>v. RemoveVolume v True) (r_named_volumes r))
    \<and> calls s' = calls s1 @ (let everything = removals @ network_removal r @ volumes in
        case env_prune_strategy d of
           RunningRegardless \<Rightarrow> []
         | RunningOnFailure \<Rightarrow> if failed then [] else everything
         | StopOnFailure \<Rightarrow> if failed then stops @ network_removal r else everything
         | RemoveRegardless \<Rightarrow> everything))"
    (is "_ \<and> (\<exists>stops removals volumes. ?sent stops removals volumes)")
proof -
  consider (left) "x = Ok ()" "s' = s1"
      "env_prune_strategy d = RunningRegardless \<or> env_prune_strategy d = RunningOnFailure \<and> failed"
    | (stopped) "env_prune_strategy d = StopOnFailure" failed
      "bindR (stop_containers d (cleanup_containers e)) (\<lambda>_. teardown_network d r) s1 = (x, s')"
    | (removed) "env_prune_strategy d = RemoveRegardless
        \<or> \<not> failed \<and> env_prune_strategy d \<in> {RunningOnFailure, StopOnFailure}"
      "remove_everything d r e s1 = (x, s')"
    using assms by (cases "env_prune_strategy d"; cases failed) (auto simp: returnR_def)
  then show ?thesis
  proof cases
    case left
    then have "?sent (map StopContainer (own_containers e)) (map (\<lambda>i. RemoveContainer i True True) (own_containers e))
        (map (\<lambda>v. RemoveVolume v True) (r_named_volumes r))"
      by auto
    with left(1) show ?thesis by blast
  next
    case stopped
    obtain stops where t: "x = Ok ()" "calls s' = calls s1 @ stops @ network_removal r"
      "mset stops = mset (map StopContainer (own_containers e))"
      using stopped(3) by (rule stop_everything_calls)
    then have "?sent stops (map (\<lambda>i. RemoveContainer i True True) (own_containers e))
        (map (\<lambda>v. RemoveVolume v True) (r_named_volumes r))"
      using stopped(1,2) by simp
    with t(1) show ?thesis by blast
  next
    case removed
    obtain removals volumes where r: "x = Ok ()" "calls s' = calls s1 @ removals @ network_removal r @ volumes"
      "mset removals = mset (map (\<lambda>i. RemoveContainer i True True) (own_containers e))"
      "mset volumes = mset (map (\<lambda>v. RemoveVolume v True) (r_named_volumes r))"
      using removed(2) by (rule remove_everything_calls)
    then have "?sent (map StopContainer (own_containers e)) removals volumes"
      using removed(1) by auto
    with r(1) show ?thesis by blast
  qed
qed

lemma teardown_effect:
  assumes "internals_ok (internals s)" and "teardown d r e failed s = (x, s')"
  shows "x = Ok () \<and> (\<exists>stops removals volumes.
      mset stops = mset (map StopContainer (own_containers e))
    \<and> mset removals = mset (map (\<lambda>i. RemoveContainer i True True) (own_containers e))
    \<and> mset volumes = mset (map (\<lambda>v. RemoveVolume v True) (r_named_volumes r))
    \<and> calls s' = calls s @ static_requests (r_network r) (dt_network (r_config r)) (static_ids e) s @
        (let everything = removals @ network_removal r @ volumes in
         case env_prune_strategy d of
           RunningRegardless \<Rightarrow> []
         | RunningOnFailure \<Rightarrow> if failed then [] else everything
         | StopOnFailure \<Rightarrow> if failed then stops @ network_removal r else everything
         | RemoveRegardless \<Rightarrow> everything))"
proof -
  obtain q1 s1 where 1: "disconnect_static_containers d (r_network r) (dt_network (r_config r)) e s = (q1, s1)"
    by fastforce
  note statics = disconnect_static_effect [OF assms(1) 1]
  have rest: "(case env_prune_strategy d of
       RunningRegardless \<Rightarrow> returnR ()
     | RunningOnFailure \<Rightarrow> if failed then returnR () else remove_everything d r e
     | StopOnFailure \<Rightarrow>
         if failed then bindR (stop_containers d (cleanup_containers e)) (\<lambda>_. teardown_network d r)
         else remove_everything d r e
     | RemoveRegardless \<Rightarrow> remove_everything d r e) s1 = (x, s')"
    using assms(2) 1 statics by (simp add: teardown_def)
  from pruned [OF rest] statics show ?thesis by (simp only: append_assoc)
qed

lemma teardown_removes:
  assumes "internals_ok (internals s)" and "env_prune_strategy d = RemoveRegardless"
    and "i \<in> set (own_containers e)" and "teardown d r e failed s = (x, s')"
  shows "x = Ok () \<and> RemoveContainer i True True \<in> set (calls s')"
proof -
  obtain removals volumes where x: "x = Ok ()"
    and sent: "calls s' = calls s @ static_requests (r_network r) (dt_network (r_config r)) (static_ids e) s @ removals @ network_removal r @ volumes"
    and m: "mset removals = mset (map (\<lambda>i. RemoveContainer i True True) (own_containers e))"
    using teardown_effect [OF assms(1,4)] unfolding assms(2) Let_def by auto
  from mset_eq_setD [OF m] assms(3) have "RemoveContainer i True True \<in> set removals" by simp
  with x sent show ?thesis by simp
qed

lemma own_containers_igniting:
  assumes "TPending p \<in> set (eng_phase e)" and "\<not> pend_is_static p"
  shows "pend_id p \<in> set (own_containers (decommission_igniting e))"
proof -
  have "cleanup_from_pending p \<in> set (deb_kept (eng_phase (decommission_igniting e)))"
    using assms(1) by (auto simp: decommission_igniting_def intro: map_filter_mem)
  then show ?thesis
    using assms(2) by (force simp: own_containers_def cleanup_from_pending_def)
qed

lemma own_containers_orbiting:
  assumes "TRunning r \<in> set (eng_phase e)" and "\<not> oper_is_static r"
  shows "oper_id r \<in> set (own_containers (decommission_orbiting e))"
proof -
  have "cleanup_from_operational r \<in> set (deb_kept (eng_phase (decommission_orbiting e)))"
    using assms(1) by (auto simp: decommission_orbiting_def intro: map_filter_mem)
  then show ?thesis
    using assms(2) by (force simp: own_containers_def cleanup_from_operational_def)
qed

text \<open>The teardown never fails, so it never hides the outcome of the test.\<close>

lemma teardown_total:
  assumes "internals_ok (internals s)"
  obtains s' where "teardown d r e failed s = (Ok (), s')"
  using teardown_effect [OF assms] by (metis surj_pair)

section \<open>What a teardown can change\<close>

fun teardown_request :: "runner \<Rightarrow> request \<Rightarrow> bool" where
  "teardown_request r (DisconnectNetwork n i f) \<longleftrightarrow> True"
| "teardown_request r (RemoveContainer i f v) \<longleftrightarrow> True"
| "teardown_request r (StopContainer i) \<longleftrightarrow> True"
| "teardown_request r (RemoveNetwork n) \<longleftrightarrow> dt_network (r_config r) = Isolated \<and> n = r_network r"
| "teardown_request r (RemoveVolume v f) \<longleftrightarrow> v \<in> set (r_named_volumes r) \<and> f"
| "teardown_request r _ \<longleftrightarrow> False"

lemma within_teardown:
  fixes rel :: "'w sys \<Rightarrow> 'w sys \<Rightarrow> bool"
  assumes "effect_order rel"
    and req: "\<And>q (f :: 'w \<Rightarrow> (b_error + unit) \<times> 'w). teardown_request r q \<Longrightarrow> within rel (issue q f)"
    and dec: "\<And>ids. within rel (decrement_completion_counters ids :: ('w sys, docker_test_error, _) action)"
  shows "within rel (teardown d r e failed)"
proof -
  note rules = effect_order.rules [OF assms(1)]
  have ign: "within rel (ignore_err m)" if "within rel m" for m :: "('w sys, b_error, unit) action"
    unfolding ignore_err_def by (intro rules that)
  have leave: "within rel (disconnect_container d cid nw)" for cid nw
    unfolding disconnect_container_def by (intro ign req) simp
  have net: "within rel (teardown_network d r)"
    unfolding teardown_network_def delete_network_def
    by (auto intro!: rules ign req split: network.split)
  have gone: "within rel (stop_containers d cs)" "within rel (remove_containers d cs)"
    "within rel (remove_container d i)" for cs i
    unfolding stop_containers_def remove_containers_def remove_container_def
    by (auto intro!: rules ign req)
  have vols: "within rel (remove_volumes d (r_named_volumes r))"
    unfolding remove_volumes_def by (auto intro!: rules req)
  have statics: "within rel (static_cleanup d nw mode ids)" for nw mode ids
    unfolding static_cleanup_def internal_cleanup_def internal_disconnect_def dynamic_disconnect_def
      external_disconnect_def external_disconnect_impl_def
    by (cases mode) (auto intro!: rules leave gone dec split: internal_status.split)
  show ?thesis
    unfolding teardown_def disconnect_static_containers_def remove_everything_def
    by (intro rules statics) (auto intro!: rules net gone vols split: prune_strategy.split)
qed

lemma issues_teardown:
  assumes "\<And>q. teardown_request r q \<Longrightarrow> R q"
  shows "issues R (teardown d r e failed)"
  by (rule within_teardown [OF trace.effect_order_axioms])
     (simp_all add: assms issues_issue within_def extends_def decrement_completion_counters_def split: prod.split)

section \<open>Properties\<close>

text \<open>
  C8: what the teardown of a test sends, for every prune strategy and outcome of the test: first the
  release of the shared containers and the disconnection of the static ones from the test's network,
  whatever the strategy; then nothing when the containers are to be left running; the stopping of the
  test's own containers and the removal of its network when a failed test is only to be stopped; and
  otherwise the removal of its own containers with their volumes, of its network, and of its named
  volumes, in this order, but in any order among the containers and among the volumes, whose requests
  are joined. It always finishes, and removes no network that the test did not make.
\<close>

theorem teardown_requests:
  assumes "internals_ok (internals s)" and "teardown d r e failed s = (x, s')"
  shows "x = Ok () \<and> (\<exists>stops removals volumes.
      mset stops = mset (map StopContainer (own_containers e))
    \<and> mset removals = mset (map (\<lambda>i. RemoveContainer i True True) (own_containers e))
    \<and> mset volumes = mset (map (\<lambda>v. RemoveVolume v True) (r_named_volumes r))
    \<and> calls s' = calls s @ static_requests (r_network r) (dt_network (r_config r)) (static_ids e) s @
        (let everything = removals @ network_removal r @ volumes in
         case env_prune_strategy d of
           RunningRegardless \<Rightarrow> []
         | RunningOnFailure \<Rightarrow> if failed then [] else everything
         | StopOnFailure \<Rightarrow> if failed then stops @ network_removal r else everything
         | RemoveRegardless \<Rightarrow> everything))"
  using assms by (rule teardown_effect)

end
