(* ===== verification/Lifecycle.thy ===== *)
theory Lifecycle
  imports Teardown
begin

text \<open>
  The whole life of a test, \<open>run_impl\<close> of \<open>src/runner.rs\<close>: that what its phases create is torn down
  again as the prune strategy says, also while detached starts are still running, and what the
  outcome of the test is.
\<close>

section \<open>The cleanup after a failed startup, and after the body\<close>

lemma logs_ok:
  assumes "handle_logs d failed cs errors s = (Ok errs, s')" and "internals_ok (internals s)"
  shows "internals_ok (internals s')"
  using within_same [OF same_logs(1) [of internals] assms(1)] assms(2) by simp

lemma startup_logs_ok:
  assumes "handle_startup_logs d cs errors s = (Ok errs, s')" and "internals_ok (internals s)"
  shows "internals_ok (internals s')"
  using within_same [OF same_logs(2) [of internals] assms(1)] assms(2) by simp

text \<open>
  Detached starts may run around the teardown, but not fail the test: the teardown runs in between, on
  well-formed registries, and its requests stay in the trace.
\<close>

interpretation any_start: keeping_starts d "\<lambda>_. True" UNIV for d :: "'w bollard"
  by unfold_locales simp

lemma run_tasks_detached:
  assumes "lawful_waits d"
  obtains tasks' s' where
    "run_tasks d ks tasks s = (Ok tasks' :: (docker_test_error, start_task list) result, s')"
    "keeps_ok s s'" "extends setup_request s s'"
proof -
  obtain tasks' s' where t: "run_tasks d ks tasks s = (Ok tasks' :: (docker_test_error, start_task list) result, s')"
    using any_start.run_tasks_Ok [where s = s and tasks = tasks and d = d and ks = ks] by auto
  have "keeps_ok s s'"
    using t by (rule withinD [rotated])
      (rule within_start_containers(1) [OF well_formed.effect_order_axioms start_container_ok [OF assms]])
  moreover have "extends setup_request s s'"
    using t by (rule withinD [rotated])
      (rule within_start_containers(1) [OF trace.effect_order_axioms issues_start_container [OF assms]])
  ultimately show thesis using t that by blast
qed

lemma startup_failed_steps:
  assumes "lawful_waits d" and "internals_ok (internals s)" and "startup_failed d sched tasks r e s = (x, s')"
  obtains t u where "x = Ok ()" "internals_ok (internals t)"
    "teardown d r (decommission_igniting e) False t = (Ok (), u)" "extends setup_request u s'"
proof -
  obtain t1 s1 where 1: "run_tasks d (before_startup_logs sched) tasks s
      = (Ok t1 :: (docker_test_error, start_task list) result, s1)" "keeps_ok s s1"
    using assms(1) by (rule run_tasks_detached)
  obtain errs s2 where 2: "handle_startup_logs d (deb_kept (eng_phase (decommission_igniting e))) [] s1
      = (Ok errs :: (docker_test_error, _) result, s2)"
    using total_logs(2) by (rule totalE)
  obtain t3 s3 where 3: "run_tasks d (before_teardown sched) t1 s2
      = (Ok t3 :: (docker_test_error, start_task list) result, s3)" "keeps_ok s2 s3"
    using assms(1) by (rule run_tasks_detached)
  have ok: "internals_ok (internals s3)"
    using 1(2) 3(2) startup_logs_ok [OF 2] assms(2) by (simp add: keeps_ok_def)
  obtain s4 where 4: "teardown d r (decommission_igniting e) False s3 = (Ok (), s4)"
    using ok by (rule teardown_total)
  obtain t5 s5 where 5: "run_tasks d (after_teardown sched) t3 s4
      = (Ok t5 :: (docker_test_error, start_task list) result, s5)" "extends setup_request s4 s5"
    using assms(1) by (rule run_tasks_detached)
  have "x = Ok () \<and> s' = s5"
    using assms(3) 1(1) 2 3(1) 4 5(1) by (simp add: startup_failed_def Let_def ret_defs)
  with ok 4 5(2) that show thesis by blast
qed

lemma startup_failed_removes:
  assumes "lawful_waits d" and "internals_ok (internals s)" and "env_prune_strategy d = RemoveRegardless"
    and "TPending p \<in> set (eng_phase e)" "\<not> pend_is_static p" and "startup_failed d sched tasks r e s = (x, s')"
  shows "x = Ok () \<and> RemoveContainer (pend_id p) True True \<in> set (calls s')"
proof -
  obtain t u where t: "x = Ok ()" "internals_ok (internals t)"
    "teardown d r (decommission_igniting e) False t = (Ok (), u)" "extends setup_request u s'"
    using assms(1,2,6) by (rule startup_failed_steps)
  have "RemoveContainer (pend_id p) True True \<in> set (calls u)"
    using teardown_removes [OF t(2) assms(3) own_containers_igniting [OF assms(4,5)] t(3)] by simp
  with t(1,4) show ?thesis by (auto simp: extends_def)
qed

lemma run_body_removes:
  assumes "internals_ok (internals s)" and "env_prune_strategy d = RemoveRegardless"
    and "TRunning c \<in> set (eng_phase e)" "\<not> oper_is_static c"
    and "within keeps_ok (test e)" and "run_body d r test e s = (x, s')"
  shows "RemoveContainer (oper_id c) True True \<in> set (calls s')"
proof -
  obtain res s1 where b: "spawn_body (test e) s = (Ok res :: (docker_test_error, _) result, s1)" "s1 = snd (test e s)"
    by (cases "test e s"; cases "fst (test e s)") (simp_all add: spawn_body_def)
  have "internals_ok (internals s1)"
    using assms(1,5) b(2) by (simp add: within_def keeps_ok_def)
  let ?k = "deb_kept (eng_phase (decommission_orbiting e))"
  obtain errs s2 where l: "handle_logs d (res \<noteq> BodyDone) ?k [] s1 = (Ok errs :: (docker_test_error, _) result, s2)"
    using total_logs(1) by (rule totalE)
  obtain y s3 where t: "teardown d r (decommission_orbiting e) (res \<noteq> BodyDone) s2 = (y, s3)" by fastforce
  have "internals_ok (internals s2)" using l \<open>internals_ok (internals s1)\<close> by (rule logs_ok)
  then have "y = Ok () \<and> RemoveContainer (oper_id c) True True \<in> set (calls s3)"
    using assms(2) own_containers_orbiting [OF assms(3,4)] t by (rule teardown_removes)
  moreover have "s' = s3"
    using assms(6) b(1) l t calculation
    by (cases res) (simp_all add: run_body_def Let_def ret_defs)
  ultimately show ?thesis by simp
qed

lemma run_body_result:
  assumes "internals_ok (internals s)" and "within keeps_ok (test e)" and "run_body d r test e s = (y, s')"
  shows "y = (case fst (test e s) of Ok _ \<Rightarrow> Ok () | Panic p \<Rightarrow> Panic p
    | Err _ \<Rightarrow> Panic ''test future cancelled'')"
proof -
  obtain z s1 where z: "test e s = (z, s1)" by fastforce
  define res where "res = (case z of Ok _ \<Rightarrow> BodyDone | Err _ \<Rightarrow> BodyCancelled | Panic p \<Rightarrow> BodyPanicked p)"
  have b: "spawn_body (test e) s = (Ok res :: (docker_test_error, _) result, s1)"
    using z by (simp add: spawn_body_def res_def split: result.split)
  have "internals_ok (internals s1)"
    using withinD [OF assms(2) z] assms(1) by (simp add: keeps_ok_def)
  let ?k = "deb_kept (eng_phase (decommission_orbiting e))"
  obtain errs s2 where l: "handle_logs d (res \<noteq> BodyDone) ?k [] s1 = (Ok errs :: (docker_test_error, _) result, s2)"
    using total_logs(1) by (rule totalE)
  obtain s3 where t: "teardown d r (decommission_orbiting e) (res \<noteq> BodyDone) s2 = (Ok (), s3)"
    using logs_ok [OF l \<open>internals_ok (internals s1)\<close>] by (rule teardown_total)
  show ?thesis
    using assms(3) b l t z
    by (cases z) (simp_all add: run_body_def Let_def ret_defs res_def)
qed

lemma ignite_Err:
  assumes "ignite d nw mode e s = (Err e', s')"
  shows "creation_failures e' \<noteq> [] \<and> set (creation_failures e') = {err. TCreationFailure err \<in> set (eng_phase e')}"
proof -
  obtain rs where rs: "list_ex isl rs" "eng_phase e' = map transitional_of rs"
    using assms unfolding ignite_def Let_def
    by (auto simp: bindR_def ret_defs join_all_no_error elim!: matchR_cases split: if_splits)
  have mem: "set (creation_failures e') = {err. TCreationFailure err \<in> set (eng_phase e')}"
  proof -
    have "set (List.map_filter (\<lambda>t. case t of TCreationFailure err \<Rightarrow> Some err | _ \<Rightarrow> None) ts)
        = {err. TCreationFailure err \<in> set ts}" for ts
      by (induction ts) (auto simp: map_filter_simps split: transitional.split)
    then show ?thesis by (simp add: creation_failures_def)
  qed
  from rs(1) obtain err where "Inl err \<in> set rs" by (auto simp: list_ex_iff isl_def)
  then have "TCreationFailure err \<in> set (eng_phase e')"
    using rs(2) by (force simp: transitional_of_def)
  with mem show ?thesis by auto
qed

section \<open>The ways through a run\<close>

text \<open>
  After the start: either the inspection reports errors and the test is torn down, or the body runs.
\<close>

lemma run_orbit_cases:
  assumes "complete_inspections d" and "internals_ok (internals s)" and "run_orbit d r test e s = (y, s')"
  obtains (inspection) e3 errors s3 where
      "inspect d (inspect_network_name r) e s = (Ok (e3, errors) :: (docker_test_error, _) result, s3)"
      "errors \<noteq> []" "internals_ok (internals s3)"
      "teardown d r (decommission_orbiting e3) False s3 = (Ok (), s')" "y = Err (last errors)"
  | (body) e3 s3 where
      "inspect d (inspect_network_name r) e s = (Ok (e3, []) :: (docker_test_error, _) result, s3)"
      "internals_ok (internals s3)" "run_body d r test e3 s3 = (y, s')"
proof -
  obtain w s3 where w: "inspect d (inspect_network_name r) e s = (w :: (docker_test_error, _) result, s3)"
    by fastforce
  have "\<And>p. w \<noteq> Panic p" using w calmD [OF calm_inspect [OF assms(1)]] by blast
  then obtain e3 errors where e3: "w = Ok (e3, errors)"
    using w by (cases w) (auto simp: inspect_no_error)
  have ok: "internals_ok (internals s3)" using within_same [OF inspect_frames(2) w] assms(2) by simp
  show thesis
  proof (cases "errors = []")
    case True
    with w e3 ok assms(3) show thesis by (intro body) (simp_all add: run_orbit_def)
  next
    case False
    obtain s4 where t: "teardown d r (decommission_orbiting e3) False s3 = (Ok (), s4)"
      using ok by (rule teardown_total)
    with False w e3 assms(3) have "y = Err (last errors) \<and> s' = s4"
      by (simp add: run_orbit_def fail_with_last_def ret_defs)
    with False w e3 ok t show thesis by (intro inspection) simp_all
  qed
qed

text \<open>
  Before: the creation fails or panics, the start fails or panics, or the containers are started.
\<close>

lemma run_containers_cases:
  assumes "lawful_waits d" and "internals_ok (internals s)" and "run_containers d sched r test e s = (y, s')"
  obtains (creation) e1 s1 err where "ignite d (r_network r) (dt_network (r_config r)) e s = (Err e1, s1)"
      "internals_ok (internals s1)" "startup_failed d sched [] r e1 s1 = (Ok (), s')"
      "TCreationFailure err \<in> set (eng_phase e1)" "y = Err err"
  | (creation_panic) p where "ignite d (r_network r) (dt_network (r_config r)) e s = (Panic p, s')" "y = Panic p"
  | (start) e1 s1 err tasks s2 where "ignite d (r_network r) (dt_network (r_config r)) e s = (Ok e1, s1)"
      "orbiting d sched e1 s1 = (Err (e1, err, tasks), s2)" "internals_ok (internals s2)"
      "startup_failed d sched tasks r e1 s2 = (Ok (), s')" "y = Err err"
  | (start_panic) e1 s1 p where "ignite d (r_network r) (dt_network (r_config r)) e s = (Ok e1, s1)"
      "orbiting d sched e1 s1 = (Panic p, s')" "y = Panic p"
  | (started) e1 s1 e2 s2 where "ignite d (r_network r) (dt_network (r_config r)) e s = (Ok e1, s1)"
      "orbiting d sched e1 s1 = (Ok e2, s2)" "internals_ok (internals s2)" "run_orbit d r test e2 s2 = (y, s')"
proof -
  obtain x s1 where x: "ignite d (r_network r) (dt_network (r_config r)) e s = (x, s1)" by fastforce
  have ok1: "internals_ok (internals s1)" using withinD [OF ignite_ok x] assms(2) by (simp add: keeps_ok_def)
  have cleanup: "\<exists>u. startup_failed d sched tasks r f t = (Ok (), u)" if "internals_ok (internals t)" for f t tasks
    using startup_failed_steps [OF assms(1) that] by (metis prod.exhaust)
  show thesis
  proof (cases x)
    case (Err e1)
    obtain u where u: "startup_failed d sched [] r e1 s1 = (Ok (), u)" using cleanup [OF ok1] by blast
    note f = ignite_Err [OF x [unfolded Err]]
    have "y = Err (last (creation_failures e1)) \<and> s' = u"
      using assms(3) x Err u f by (auto simp: run_containers_def fail_with_last_def ret_defs)
    moreover have "TCreationFailure (last (creation_failures e1)) \<in> set (eng_phase e1)" using f last_in_set by blast
    ultimately show thesis using x Err ok1 u by (intro creation) simp_all
  next
    case (Panic p)
    with x assms(3) show thesis by (auto intro: creation_panic simp: run_containers_def)
  next
    case (Ok e1)
    obtain z s2 where z: "orbiting d sched e1 s1 = (z, s2)" by fastforce
    have ok2: "internals_ok (internals s2)"
      using withinD [OF orbiting_ok [OF assms(1)] z] ok1 by (simp add: keeps_ok_def)
    show thesis
    proof (cases z)
      case (Err f)
      then obtain err tasks where f: "z = Err (e1, err, tasks)"
        using z by (cases f) (auto simp: orbiting_def ret_defs elim!: matchR_cases)
      obtain u where u: "startup_failed d sched tasks r e1 s2 = (Ok (), u)" using cleanup [OF ok2] by blast
      have "y = Err err \<and> s' = u" using assms(3) x Ok z f u by (simp add: run_containers_def ret_defs)
      with x Ok z f ok2 u show thesis by (intro start) simp_all
    qed (use x Ok z ok2 assms(3) in \<open>auto intro: start_panic started simp: run_containers_def\<close>)
  qed
qed

lemma run_orbit_removes:
  assumes "complete_inspections d" and "internals_ok (internals s)" and "env_prune_strategy d = RemoveRegardless"
    and "TRunning c \<in> set (eng_phase e)" "\<not> oper_is_static c"
    and "\<And>e. within keeps_ok (test e)" and "run_orbit d r test e s = (x, s')"
  shows "RemoveContainer (oper_id c) True True \<in> set (calls s')"
proof -
  have kept: "\<exists>c'. TRunning c' \<in> set (eng_phase e') \<and> oper_id c' = oper_id c \<and> \<not> oper_is_static c'"
    if i: "inspect d (inspect_network_name r) e s = (Ok (e', errors) :: (docker_test_error, _) result, s1)" for e' errors s1
  proof -
    obtain t where "t \<in> set (eng_phase e')" "inspected (TRunning c) t"
      using inspect_effect [OF i] assms(4) by (metis in_set_conv_nth list_all2_conv_all_nth)
    with assms(5) show ?thesis by (auto simp: same_identity_def)
  qed
  from assms(1,2,7) show ?thesis
  proof (cases rule: run_orbit_cases)
    case (inspection e3 errors s3)
    then show ?thesis
      using kept [OF inspection(1)] own_containers_orbiting teardown_removes [OF _ assms(3)] by metis
  next
    case (body e3 s3)
    then show ?thesis using kept [OF body(1)] run_body_removes [OF body(2) assms(3)] assms(6) by metis
  qed
qed

section \<open>Properties\<close>

text \<open>
  C1: under the default prune strategy nothing that a test created for itself is left behind: every
  container that \<open>ignite\<close> created and that is not shared is removed with its volumes, whether the
  creation of another one failed, a start failed, the inspection failed, or the test body succeeded,
  failed or panicked. The exceptions are panics of the library itself, which the hypotheses exclude.
\<close>

theorem created_containers_removed:
  assumes "lawful_waits d" and "complete_inspections d" and "env_prune_strategy d = RemoveRegardless"
    and "statics_ok s" and "\<And>e. within keeps_ok (test e)"
    and ignited: "ignite d (r_network r) (dt_network (r_config r)) e s = (x, s1)" "x = Ok e1 \<or> x = Err e1"
    and "\<And>p t. orbiting d sched e1 s1 \<noteq> (Panic p, t)"
    and "distinct (map pend_id (pending_of (eng_phase e1)))"
    and "pend_handle ` set (pending_of (eng_phase e1)) \<inter> ext_handle ` set (external_refs (eng_phase e1)) = {}"
    and run: "run_containers d sched r test e s = (y, s')"
    and p: "p \<in> set (pending_of (eng_phase e1))" "\<not> pend_is_static p"
  shows "RemoveContainer (pend_id p) True True \<in> set (calls s')"
proof -
  have reg: "statics_ok s1 \<and> (\<forall>p \<in> set (pending_of (eng_phase e1)). registered s1 p)"
    using ignite_registers [OF assms(4) ignited] .
  have pend: "TPending p \<in> set (eng_phase e1)" using p(1) by (simp add: set_pending_of)
  have ok: "internals_ok (internals s)" using assms(4) by (simp add: statics_ok_def)
  from assms(1) ok run show ?thesis
  proof (cases rule: run_containers_cases)
    case (creation e1' t1 err)
    with ignited pend startup_failed_removes [OF assms(1) _ assms(3) _ p(2)] show ?thesis by force
  next
    case (start e1' t1 err tasks t2)
    with ignited pend startup_failed_removes [OF assms(1) _ assms(3) _ p(2)] show ?thesis by force
  next
    case (started e1' t1 e2 s2)
    then have o: "orbiting d sched e1 s1 = (Ok e2, s2)" using ignited by auto
    obtain i where i: "i < length (eng_phase e1)" "eng_phase e1 ! i = TPending p"
      using pend by (auto simp: in_set_conv_nth)
    then obtain c where c: "TRunning c \<in> set (eng_phase e2)" "same_container p c"
      using orbiting_placed [OF assms(1) _ _ o assms(9,10)] reg by (force simp: in_set_conv_nth)
    have "RemoveContainer (oper_id c) True True \<in> set (calls s')"
      using assms(2) started(3) assms(3) c(1) _ assms(5) started(4)
      by (rule run_orbit_removes) (use c(2) p(2) in \<open>simp add: same_container_def\<close>)
    with c(2) show ?thesis by (simp add: same_container_def)
  qed (use ignited assms(8) in auto)
qed

text \<open>
  C9: the outcome of a test is that of the first phase that failed, and otherwise that of its body,
  and the teardown never hides it: a creation error that is reported is one that occurred (the
  expected error is always there to be reported), a failed start or inspection is reported as such, a
  panic of the body is raised again, and the test succeeds when the body finished.
\<close>

theorem run_reports_first_failure:
  assumes "lawful_waits d" and "complete_inspections d" and "internals_ok (internals s)"
    and "\<And>e. within keeps_ok (test e)"
    and run: "run_containers d sched r test e s = (y, s')"
  shows "case ignite d (r_network r) (dt_network (r_config r)) e s of
      (Err e1, _) \<Rightarrow> \<exists>err. TCreationFailure err \<in> set (eng_phase e1) \<and> y = Err err
    | (Panic p, _) \<Rightarrow> y = Panic p
    | (Ok e1, s1) \<Rightarrow>
        (case orbiting d sched e1 s1 of
           (Err (e2, err, _), _) \<Rightarrow> y = Err err
         | (Panic p, _) \<Rightarrow> y = Panic p
         | (Ok e2, s2) \<Rightarrow> \<exists>e3 errors s3.
             inspect d (inspect_network_name r) e2 s2 = (Ok (e3, errors) :: (docker_test_error, _) result, s3)
             \<and> y = (if errors \<noteq> [] then Err (last errors)
                else case fst (test e3 s3) of Ok _ \<Rightarrow> Ok () | Panic p \<Rightarrow> Panic p
                  | Err _ \<Rightarrow> Panic ''test future cancelled''))"
proof -
  from assms(1,3) run show ?thesis
  proof (cases rule: run_containers_cases)
    case (started e1 s1 e2 s2)
    from assms(2) started(3,4) show ?thesis
    proof (cases rule: run_orbit_cases)
      case (inspection e3 errors s3)
      with started(1,2) show ?thesis by auto
    next
      case (body e3 s3)
      with started(1,2) run_body_result [where test = test and e = e3, OF body(2) assms(4) body(3)]
      show ?thesis by auto
    qed
  qed auto
qed

end
