(* ===== verification/Handles.thy ===== *)
theory Handles
  imports Lifecycle
begin

text \<open>
  From the handle of a composition to the container the test body is given: the phases of
  \<open>src/engine.rs\<close> keep each container at the index of its composition, so \<open>handle\<close> of
  \<open>src/runner.rs\<close> finds it.
\<close>

section \<open>Creation in order\<close>

fun created_as :: "('w sys, docker_test_error, created_container) action \<Rightarrow> transitional \<Rightarrow> bool" where
  "created_as m (TPending p) \<longleftrightarrow> (\<exists>s s'. m s = (Ok (Pending p), s'))"
| "created_as m (TStaticExternal x) \<longleftrightarrow> (\<exists>s s'. m s = (Ok (StaticExternal x), s'))"
| "created_as m (TCreationFailure err) \<longleftrightarrow> (\<exists>s s'. m s = (Err err, s'))"
| "created_as m (TRunning _) \<longleftrightarrow> False"
| "created_as m TSentinel \<longleftrightarrow> False"

lemma run_all_created:
  assumes "run_all ms s = (Ok rs :: ('f, _) result, s')"
  shows "list_all2 (\<lambda>m r. created_as m (transitional_of r)) ms rs"
  using assms
proof (induction ms arbitrary: s rs)
  case Nil
  then show ?case by (simp add: ret_defs)
next
  case (Cons m ms)
  obtain x s1 where x: "m s = (x, s1)" by fastforce
  obtain rs' where rs: "run_all ms s1 = (Ok rs' :: ('f, _) result, s')"
    "rs = (case x of Ok a \<Rightarrow> Inr a | Err e \<Rightarrow> Inl e | Panic p \<Rightarrow> undefined) # rs'" "\<forall>p. x \<noteq> Panic p"
    using Cons.prems x by (cases x) (auto simp: ret_defs elim!: bindR_Ok)
  have "created_as m (transitional_of (hd rs))"
    using x rs(2,3) by (cases x) (auto simp: transitional_of_def split: created_container.split)
  with Cons.IH [OF rs(1)] rs(2) show ?case by simp
qed

lemma join_all_created:
  assumes "join_all order ms s = (Ok rs :: ('f, _) result, s')"
  shows "list_all2 created_as ms (map transitional_of rs)"
proof -
  obtain ks rs' where r: "run_all (map ((!) ms) (in_order ks (length ms))) s = (Ok rs' :: ('f, _) result, s')"
    "rs = by_index (in_order ks (length ms)) rs' (length ms)" "length rs' = length ms"
    using assms by (rule join_all_Ok)
  show ?thesis
    using by_index_in_order(2) [OF r(3) _ run_all_created [OF r(1)]] r(2) by (simp add: list_all2_map2)
qed

lemma ignite_created:
  assumes "ignite d nw mode e s = (x, s')"
  shows "case x of
      Ok e' \<Rightarrow> eng_keeper e' = eng_keeper e
        \<and> list_all2 created_as (map (\<lambda>c. create_container d c (Some nw) mode) (eng_phase e)) (eng_phase e')
        \<and> (\<forall>err. TCreationFailure err \<notin> set (eng_phase e'))
    | Err e' \<Rightarrow> eng_keeper e' = eng_keeper e
        \<and> list_all2 created_as (map (\<lambda>c. create_container d c (Some nw) mode) (eng_phase e)) (eng_phase e')
        \<and> (\<exists>err. TCreationFailure err \<in> set (eng_phase e'))
    | Panic p \<Rightarrow> True"
proof -
  let ?ms = "map (\<lambda>c. create_container d c (Some nw) mode) (eng_phase e)"
  obtain y t where y: "join_all (poll_order d) ?ms s = (y :: (transitional list engine, _) result, t)" by fastforce
  show ?thesis
  proof (cases y)
    case (Ok rs)
    have failed: "list_ex isl rs \<longleftrightarrow> (\<exists>err. TCreationFailure err \<in> set (map transitional_of rs))"
      by (induction rs) (auto simp: transitional_of_def split: sum.splits created_container.splits)
    have "x = (if list_ex isl rs then Err \<lparr>eng_keeper = eng_keeper e, eng_phase = map transitional_of rs\<rparr>
        else Ok \<lparr>eng_keeper = eng_keeper e, eng_phase = map transitional_of rs\<rparr>)"
      using assms y Ok by (simp add: ignite_def Let_def ret_defs split: if_splits)
    with join_all_created [OF y [unfolded Ok]] failed show ?thesis by simp
  qed (use y assms in \<open>auto simp: ignite_def join_all_no_error\<close>)
qed

text \<open>
  C26: creating the containers keeps their order, in whatever order the runtime gets to creating them: at the index of a composition stands what asking for
  that composition's container answered, the keeper of the handles is untouched, and the phase fails
  exactly when one of the creations failed, with every error kept.
\<close>

theorem ignite_in_order:
  assumes "ignite d nw mode e s = (x, s')" and "x = Ok e' \<or> x = Err e'"
  shows "eng_keeper e' = eng_keeper e \<and> length (eng_phase e') = length (eng_phase e)
    \<and> (\<forall>i < length (eng_phase e).
        created_as (create_container d (eng_phase e ! i) (Some nw) mode) (eng_phase e' ! i))
    \<and> (x = Err e' \<longleftrightarrow> (\<exists>err. TCreationFailure err \<in> set (eng_phase e')))"
  using ignite_created [OF assms(1)] assms(2) by (auto simp: list_all2_conv_all_nth)

section \<open>From a handle to its container\<close>

lemma resolve_inject_Ok:
  assumes "resolve_inject_container_name_env e = Ok e'"
  shows "eng_keeper e' = eng_keeper e
    \<and> list_all2 (\<lambda>c c'. \<exists>env. c' = c\<lparr>comp_env := env\<rparr>) (eng_phase e) (eng_phase e')"
proof -
  obtain tss where t: "resolve_all_injections (eng_keeper e) (eng_phase e) (eng_phase e) = Ok tss"
    "e' = e\<lparr>eng_phase := map2 inject_env (eng_phase e) tss\<rparr>"
    using assms by (auto simp: resolve_inject_container_name_env_def split: result.splits)
  then have "length tss = length (eng_phase e)"
    by (auto simp: resolve_all_injections_Ok dest: list_all2_lengthD)
  with t(2) show ?thesis
    by (auto simp: list_all2_conv_all_nth inject_env_def)
qed

lemma try_handle_Running:
  assumes "h \<notin> set (lookup_collisions (eng_keeper e))" and "map_of (lookup_handlers (eng_keeper e)) h = Some i"
    and "i < length (eng_phase e)" and "eng_phase e ! i = TRunning r"
  shows "try_handle e h = Ok r"
  using assms by (simp add: try_handle_def handle_collision_def resolve_handle_def)

lemma handle_env [simp]: "handle (c\<lparr>comp_env := env\<rparr>) = handle c" "is_static (c\<lparr>comp_env := env\<rparr>) = is_static c"
  by (simp_all add: handle_def is_static_def split: option.split)

lemma created_pending:
  assumes "created_as (create_container d c nw mode) t" and "\<not> is_static c"
    and "\<And>err. t \<noteq> TCreationFailure err"
  shows "\<exists>p. t = TPending p \<and> pend_handle p = handle c \<and> pend_name p = container_name c \<and> \<not> pend_is_static p"
  using assms
  by (cases t)
     (auto simp: create_container_def ret_defs PendingContainer_new_def static_management_policy_of_def is_static_def
       elim!: bindR_Ok create_container_inner_Ok)

lemma first_index_unique:
  assumes "count_list hs h = 1" and "i < length hs" and "hs ! i = h"
  shows "first_index h hs = Some i"
proof (cases "first_index h hs")
  case None
  with assms show ?thesis by (auto simp: first_index_None)
next
  case (Some j)
  then have "j < length hs" "hs ! j = h" using first_index_Some by blast+
  then have "j = i" using repeated_unique [of hs h j i] assms by (simp add: repeated_def)
  with Some show ?thesis by simp
qed

text \<open>Through all phases, each container of the test's own stays at the index of its composition.\<close>

lemma named_slot:
  assumes "list_all2 (\<lambda>c k. \<exists>sfx. length sfx = 20 \<and> k = configure_container_name ns sfx c) cs ks"
    and "list_all2 (\<lambda>k k'. \<exists>env. k' = k\<lparr>comp_env := env\<rparr>) ks ks'"
    and "i < length cs"
  shows "handle (ks' ! i) = handle (cs ! i)" and "is_static (ks' ! i) \<longleftrightarrow> is_static (cs ! i)"
    and "container_name (ks' ! i) = container_name (ks ! i)" and "i < length ks'"
proof -
  have k: "handle (ks ! i) = handle (cs ! i)" "is_static (ks ! i) \<longleftrightarrow> is_static (cs ! i)" "i < length ks"
    using list_all2_nthD [OF assms(1,3)] list_all2_lengthD [OF assms(1)] assms(3) by (auto simp: is_static_def)
  obtain env where "ks' ! i = (ks ! i)\<lparr>comp_env := env\<rparr>"
    using list_all2_nthD [OF assms(2) k(3)] by blast
  with k list_all2_lengthD [OF assms(2)]
  show "handle (ks' ! i) = handle (cs ! i)" and "is_static (ks' ! i) \<longleftrightarrow> is_static (cs ! i)"
    and "container_name (ks' ! i) = container_name (ks ! i)" and "i < length ks'"
    by (simp_all add: is_static_def)
qed

lemma phases_in_place:
  assumes "lawful_waits d" and "statics_ok s2"
    and "resolve_final_container_name d ns (bootstrap cs) s0 = (Ok named, s1)"
    and "resolve_inject_container_name_env named = Ok fueled"
    and "ignite d nw mode fueled s2 = (Ok ignited, s3)"
    and "orbiting d sched ignited s3 = (Ok orbit, s4)"
    and "inspect d nn orbit s4 = (Ok (ready, errors), s5)"
    and "distinct (map pend_id (pending_of (eng_phase ignited)))"
    and "pend_handle ` set (pending_of (eng_phase ignited))
      \<inter> ext_handle ` set (external_refs (eng_phase ignited)) = {}"
  shows "eng_keeper ready = eng_keeper (bootstrap cs) \<and> length (eng_phase ready) = length cs
    \<and> (\<forall>i < length cs. \<not> is_static (cs ! i) \<longrightarrow>
      (\<exists>r. eng_phase ready ! i = TRunning r \<and> oper_handle r = handle (cs ! i)
        \<and> oper_name r = container_name (eng_phase named ! i)))"
proof -
  have named: "eng_keeper named = eng_keeper (bootstrap cs)"
    "list_all2 (\<lambda>c k. \<exists>sfx. length sfx = 20 \<and> k = configure_container_name ns sfx c) cs (eng_phase named)"
    using resolve_final_Ok [OF assms(3)] by (simp_all add: bootstrap_def)
  note fueled = resolve_inject_Ok [OF assms(4)]
  have ignited: "eng_keeper ignited = eng_keeper fueled"
    "list_all2 created_as (map (\<lambda>c. create_container d c (Some nw) mode) (eng_phase fueled)) (eng_phase ignited)"
    "\<forall>err. TCreationFailure err \<notin> set (eng_phase ignited)"
    using ignite_created [OF assms(5)] by simp_all
  have reg: "statics_ok s3 \<and> (\<forall>p \<in> set (pending_of (eng_phase ignited)). registered s3 p)"
    using ignite_registers [OF assms(2,5)] by simp
  note orbit = orbiting_placed [OF assms(1) _ _ assms(6,8,9)]
  note ins = inspect_effect [OF assms(7)]
  have keeper: "eng_keeper ready = eng_keeper (bootstrap cs)"
    using named fueled ignited orbit reg ins by simp
  have len: "length (eng_phase ready) = length cs"
    using named(2) fueled ignited(2) orbit reg ins by (auto dest!: list_all2_lengthD)
  have "\<exists>r. eng_phase ready ! i = TRunning r \<and> oper_handle r = handle (cs ! i)
        \<and> oper_name r = container_name (eng_phase named ! i)"
    if i: "i < length cs" and st: "\<not> is_static (cs ! i)" for i
  proof -
    note f = named_slot [OF named(2) fueled [THEN conjunct2] i]
    have g: "i < length (eng_phase ignited)" using f(4) ignited(2) by (auto dest: list_all2_lengthD)
    then have "eng_phase ignited ! i \<noteq> TCreationFailure err" for err using ignited(3) nth_mem by metis
    then obtain p where p: "eng_phase ignited ! i = TPending p" "pend_handle p = handle (cs ! i)"
      "pend_name p = container_name (eng_phase named ! i)"
      using created_pending [of d "eng_phase fueled ! i" "Some nw" mode "eng_phase ignited ! i"] f st
        list_all2_nthD [OF ignited(2), of i] by auto
    obtain r where r: "eng_phase orbit ! i = TRunning r" "same_container p r" "i < length (eng_phase orbit)"
      using orbit reg g p(1) by fastforce
    then obtain r' where r': "eng_phase ready ! i = TRunning r'" "same_identity r r'"
      using list_all2_nthD [OF ins [THEN conjunct2] r(3)] by (auto simp: r(1))
    then show ?thesis using r(2) p by (auto simp: same_identity_def same_container_def)
  qed
  with keeper len show ?thesis by blast
qed

text \<open>
  C6: the handle of a composition leads, in the test body, to that composition's own container: for a
  handle that only one composition has, and which is not static, looking it up after all phases have
  succeeded answers with a container of that handle and of the composition's final name. A handle
  that nobody has, or that several have, is an error, and the lookup never panics on a bad index.
\<close>

theorem handle_finds_container:
  assumes "lawful_waits d" and "statics_ok s2"
    and "resolve_final_container_name d ns (bootstrap cs) s0 = (Ok named, s1)"
    and "resolve_inject_container_name_env named = Ok fueled"
    and "ignite d nw mode fueled s2 = (Ok ignited, s3)"
    and "orbiting d sched ignited s3 = (Ok orbit, s4)"
    and "inspect d nn orbit s4 = (Ok (ready, errors), s5)"
    and "distinct (map pend_id (pending_of (eng_phase ignited)))"
    and "pend_handle ` set (pending_of (eng_phase ignited))
      \<inter> ext_handle ` set (external_refs (eng_phase ignited)) = {}"
  shows "(\<forall>i < length cs. count_list (map handle cs) (handle (cs ! i)) = 1 \<longrightarrow> \<not> is_static (cs ! i) \<longrightarrow>
      (\<exists>r. try_handle ready (handle (cs ! i)) = Ok r \<and> oper_handle r = handle (cs ! i)
        \<and> oper_name r = container_name (eng_phase named ! i)))
    \<and> (count_list (map handle cs) h \<noteq> 1 \<longrightarrow> (\<exists>m. try_handle ready h = Err (TestBody m)))
    \<and> (\<forall>p. try_handle ready h \<noteq> Panic p)"
proof -
  note place = phases_in_place [OF assms]
  then have keeper: "eng_keeper ready = eng_keeper (bootstrap cs)" and len: "length (eng_phase ready) = length cs"
    by blast+
  have found: "\<exists>r. try_handle ready (handle (cs ! i)) = Ok r \<and> oper_handle r = handle (cs ! i)
        \<and> oper_name r = container_name (eng_phase named ! i)"
    if i: "i < length cs" and one: "count_list (map handle cs) (handle (cs ! i)) = 1" and st: "\<not> is_static (cs ! i)" for i
  proof -
    obtain r where r: "eng_phase ready ! i = TRunning r" "oper_handle r = handle (cs ! i)"
      "oper_name r = container_name (eng_phase named ! i)"
      using place i st by blast
    have "handle (cs ! i) \<notin> set (lookup_collisions (eng_keeper ready))"
      using one by (simp add: keeper bootstrap_collisions repeated_def)
    moreover have "map_of (lookup_handlers (eng_keeper ready)) (handle (cs ! i)) = Some i"
      using first_index_unique [of "map handle cs" "handle (cs ! i)" i] one i by (simp add: keeper bootstrap_lookup)
    ultimately have "try_handle ready (handle (cs ! i)) = Ok r"
      using i len r(1) by (intro try_handle_Running) simp_all
    with r(2,3) show ?thesis by blast
  qed
  have in_range: "map_of (lookup_handlers (eng_keeper ready)) h = Some j \<Longrightarrow> j < length (eng_phase ready)" for j
    using first_index_Some [of h "map handle cs" j] by (simp add: keeper bootstrap_lookup len)
  have "\<exists>m. try_handle ready h = Err (TestBody m)" if "count_list (map handle cs) h \<noteq> 1"
  proof (cases "count_list (map handle cs) h")
    case 0
    then have "first_index h (map handle cs) = None" by (simp add: first_index_None count_list_0_iff)
    with 0 show ?thesis
      by (simp add: try_handle_def handle_collision_def resolve_handle_def keeper bootstrap_collisions
          bootstrap_lookup repeated_def)
  next
    case (Suc k)
    with that show ?thesis
      by (simp add: try_handle_def handle_collision_def keeper bootstrap_collisions repeated_def)
  qed
  moreover have "try_handle ready h \<noteq> Panic p" for p
    using in_range by (auto simp: try_handle_def resolve_handle_def split: option.splits transitional.splits)
  ultimately show ?thesis using found by blast
qed

end
