(* ===== verification/Resources.thy ===== *)
theory Resources
  imports Lifecycle
begin

text \<open>
  The networks and volumes of a test, \<open>resolve_named_volumes\<close> and the teardown of \<open>src/runner.rs\<close>:
  what they are called, and that nobody else's are removed.
\<close>

section \<open>Named volumes\<close>

lemma resolve_volumes_spec:
  assumes "\<And>v x. map_of m v = Some x \<Longrightarrow> x = v @ ''-'' @ sfx" and "distinct (map fst m)"
    and "resolve_volumes sfx vs m = (names, m')"
  shows "names = map (\<lambda>(v, path). v @ ''-'' @ sfx @ '':'' @ path) vs
    \<and> (\<forall>v x. map_of m' v = Some x \<longrightarrow> x = v @ ''-'' @ sfx) \<and> distinct (map fst m')
    \<and> dom (map_of m') = dom (map_of m) \<union> fst ` set vs"
  using assms
proof (induction vs arbitrary: m names)
  case Nil
  then show ?case by simp
next
  case (Cons vp vs)
  obtain v path where vp: "vp = (v, path)" by fastforce
  let ?m = "if map_of m v = None then AList.update v (v @ ''-'' @ sfx) m else m"
  obtain names1 where 1: "resolve_volumes sfx vs ?m = (names1, m')"
    "names = (v @ ''-'' @ sfx @ '':'' @ path) # names1"
    using Cons.prems vp by (auto split: option.splits prod.splits)
  have "names1 = map (\<lambda>(v, path). v @ ''-'' @ sfx @ '':'' @ path) vs
    \<and> (\<forall>v x. map_of m' v = Some x \<longrightarrow> x = v @ ''-'' @ sfx) \<and> distinct (map fst m')
    \<and> dom (map_of m') = dom (map_of ?m) \<union> fst ` set vs"
    by (rule Cons.IH [OF _ _ 1(1)])
       (use Cons.prems(1,2) in \<open>auto simp: update_conv' distinct_update simp del: map_of_eq_Some_iff split: if_splits\<close>)
  with 1(2) vp show ?case by (auto simp: update_conv' split: if_splits)
qed

lemma resolve_composition_volumes_spec:
  assumes "\<And>v x. map_of m v = Some x \<Longrightarrow> x = v @ ''-'' @ sfx" and "distinct (map fst m)"
    and "resolve_composition_volumes sfx cs m = (cs', m')"
  shows "cs' = map (\<lambda>c. c\<lparr>final_named_volume_names :=
        map (\<lambda>(v, path). v @ ''-'' @ sfx @ '':'' @ path) (comp_named_volumes c)\<rparr>) cs
    \<and> (\<forall>v x. map_of m' v = Some x \<longrightarrow> x = v @ ''-'' @ sfx) \<and> distinct (map fst m')
    \<and> dom (map_of m') = dom (map_of m) \<union> (\<Union>c \<in> set cs. fst ` set (comp_named_volumes c))"
  using assms
proof (induction cs arbitrary: m cs')
  case Nil
  then show ?case by simp
next
  case (Cons c cs)
  obtain names m1 where 1: "resolve_volumes sfx (comp_named_volumes c) m = (names, m1)" by fastforce
  obtain cs1 where 2: "resolve_composition_volumes sfx cs m1 = (cs1, m')"
    "cs' = c\<lparr>final_named_volume_names := names\<rparr> # cs1"
    using Cons.prems(3) 1 by (auto split: prod.splits)
  note v = resolve_volumes_spec [OF Cons.prems(1,2) 1]
  have "cs1 = map (\<lambda>c. c\<lparr>final_named_volume_names :=
        map (\<lambda>(v, path). v @ ''-'' @ sfx @ '':'' @ path) (comp_named_volumes c)\<rparr>) cs
    \<and> (\<forall>v x. map_of m' v = Some x \<longrightarrow> x = v @ ''-'' @ sfx) \<and> distinct (map fst m')
    \<and> dom (map_of m') = dom (map_of m1) \<union> (\<Union>c \<in> set cs. fst ` set (comp_named_volumes c))"
    by (rule Cons.IH [OF _ _ 2(1)]) (use v in auto)
  with v 2(2) show ?case by auto
qed

lemma resolved_volumes:
  "dt_compositions (r_config (resolve_named_volumes r))
     = map (\<lambda>c. c\<lparr>final_named_volume_names :=
         map (\<lambda>(v, path). v @ ''-'' @ r_id r @ '':'' @ path) (comp_named_volumes c)\<rparr>)
         (dt_compositions (r_config r))"
  "set (r_named_volumes (resolve_named_volumes r))
     = (\<lambda>v. v @ ''-'' @ r_id r) ` (\<Union>c \<in> set (dt_compositions (r_config r)). fst ` set (comp_named_volumes c))"
  "distinct (r_named_volumes (resolve_named_volumes r))"
proof -
  obtain cs m where r: "resolve_composition_volumes (r_id r) (dt_compositions (r_config r)) [] = (cs, m)"
    by fastforce
  note s = resolve_composition_volumes_spec [OF _ _ r, simplified]
  have snd: "snd kv = fst kv @ ''-'' @ r_id r" if "kv \<in> set m" for kv
    using s map_of_is_SomeI [of m "fst kv" "snd kv"] that by simp
  then have snds: "map snd m = map (\<lambda>v. v @ ''-'' @ r_id r) (map fst m)" by simp
  have dom: "set (map fst m) = (\<Union>c \<in> set (dt_compositions (r_config r)). fst ` set (comp_named_volumes c))"
    using s by (simp add: dom_map_of_conv_image_fst [symmetric])
  have "set (map snd m) = (\<lambda>v. v @ ''-'' @ r_id r) ` set (map fst m)"
    unfolding snds by (rule set_map)
  moreover have "distinct (map snd m)"
    unfolding snds using s by (simp add: distinct_map inj_on_def)
  ultimately show "dt_compositions (r_config (resolve_named_volumes r))
     = map (\<lambda>c. c\<lparr>final_named_volume_names :=
         map (\<lambda>(v, path). v @ ''-'' @ r_id r @ '':'' @ path) (comp_named_volumes c)\<rparr>)
         (dt_compositions (r_config r))"
    "set (r_named_volumes (resolve_named_volumes r))
     = (\<lambda>v. v @ ''-'' @ r_id r) ` (\<Union>c \<in> set (dt_compositions (r_config r)). fst ` set (comp_named_volumes c))"
    "distinct (r_named_volumes (resolve_named_volumes r))"
    using s unfolding dom by (simp_all add: resolve_named_volumes_def r)
qed

text \<open>
  C35: every named volume of a test is mounted under the configured name suffixed with the test's id,
  the same one wherever the volume is mentioned, and the volumes to remove at the teardown are
  exactly these names, each once.
\<close>

theorem named_volumes_suffixed:
  "dt_compositions (r_config (resolve_named_volumes r))
     = map (\<lambda>c. c\<lparr>final_named_volume_names :=
         map (\<lambda>(v, path). v @ ''-'' @ r_id r @ '':'' @ path) (comp_named_volumes c)\<rparr>)
         (dt_compositions (r_config r))
   \<and> set (r_named_volumes (resolve_named_volumes r))
     = (\<lambda>v. v @ ''-'' @ r_id r) ` (\<Union>c \<in> set (dt_compositions (r_config r)). fst ` set (comp_named_volumes c))
   \<and> distinct (r_named_volumes (resolve_named_volumes r))"
  using resolved_volumes [of r] by blast

section \<open>Resources of others\<close>

text \<open>
  Requests that remove a network or a volume, which must be the test's own: the network it made, and
  only in isolated mode, and the volumes with its id.
\<close>

definition own_resources :: "runner \<Rightarrow> request \<Rightarrow> bool" where
  "own_resources r q \<longleftrightarrow>
     (\<forall>n. q = RemoveNetwork n \<longrightarrow> dt_network (r_config r) = Isolated \<and> n = r_network r)
   \<and> (\<forall>v force. q = RemoveVolume v force \<longrightarrow>
        (\<exists>c \<in> set (dt_compositions (r_config r)). \<exists>(name, path) \<in> set (comp_named_volumes c).
           v = name @ ''-'' @ r_id r))"

lemma own_resources_simps [simp]:
  "own_resources r (InspectContainer n)" "own_resources r (CreateContainer n b)"
  "own_resources r (StartContainer n)" "own_resources r (StopContainer n)"
  "own_resources r (RemoveContainer n x y)" "own_resources r (ConnectNetwork n i)"
  "own_resources r (DisconnectNetwork n i x)" "own_resources r (CreateNetwork n)"
  "own_resources r (ContainerLogs i w x y)" "own_resources r (InspectImage i)"
  "own_resources r (CreateImage i t a)" "own_resources r (WriteLog k m)" "own_resources r (CreateFile f)"
  "own_resources r (RemoveNetwork n) \<longleftrightarrow> dt_network (r_config r) = Isolated \<and> n = r_network r"
  by (auto simp: own_resources_def)

lemma setup_own: "setup_request q \<Longrightarrow> own_resources r q"
  by (auto simp: setup_request_def own_resources_def)

lemma log_own: "log_requests q \<Longrightarrow> own_resources r q"
  by (auto simp: log_requests_def own_resources_def split: request.splits)

lemmas issues_setup = issues_mono [OF _ setup_own]
lemmas issues_log = issues_mono [OF _ log_own]

text \<open>The runner with which the phases run has the same network and mode, and the resolved volumes.\<close>

definition same_run :: "runner \<Rightarrow> runner \<Rightarrow> bool" where
  "same_run r0 r \<longleftrightarrow> dt_network (r_config r) = dt_network (r_config r0) \<and> r_network r = r_network r0
     \<and> (\<forall>v \<in> set (r_named_volumes r). own_resources r0 (RemoveVolume v True))"

lemma own_teardown: "same_run r0 r \<Longrightarrow> teardown_request r q \<Longrightarrow> own_resources r0 q"
  by (cases q) (auto simp: same_run_def)

lemma issues_run_containers:
  assumes "lawful_waits d" and "same_run r0 r" and "\<And>e. issues (own_resources r0) (test e)"
  shows "issues (own_resources r0) (run_containers d sched r test e)"
proof -
  note t = issues_teardown [OF own_teardown [OF assms(2)]]
  have tasks: "issues (own_resources r0) (run_tasks d ks ts)" for ks ts
    by (intro within_start_containers trace.effect_order_axioms issues_setup [OF issues_start_container [OF assms(1)]])
  have startup: "issues (own_resources r0) (startup_failed d sched ts r e)" for ts e
    unfolding startup_failed_def Let_def by (intro issues_rules tasks t issues_log [OF issues_logs(2)])
  have body: "issues (own_resources r0) (run_body d r test e)" for e
    unfolding run_body_def Let_def
    by (intro issues_rules t issues_spawn_body assms(3) issues_log [OF issues_logs(1)])
       (auto intro!: issues_rules split: body_outcome.split)
  have orbit: "issues (own_resources r0) (run_orbit d r test e)" for e
    unfolding run_orbit_def fail_with_last_def
    by (intro issues_rules t body issues_setup [OF issues_mono [OF inspect_frames(1) observing_setup]])
  show ?thesis
    unfolding run_containers_def fail_with_last_def
    by (intro issues_rules startup orbit issues_setup [OF issues_ignite] issues_setup [OF issues_orbiting [OF assms(1)]])
qed

lemma issues_generate: "issues R (generate_random_string d n)"
  by (induction n) (auto intro!: issues_rules)

lemma issues_configure_names: "issues R (configure_names d ns cs)"
  by (induction cs) (auto intro!: issues_rules issues_generate)

lemma issues_resolve_network:
  assumes "same_run r0 r"
  shows "issues (own_resources r0) (resolve_network d r)"
  using assms unfolding resolve_network_def create_network_def same_run_def
  by (auto intro!: issues_rules issues_ignore_err issues_networks split: network.split option.split)

lemma same_run_resolved:
  "same_run r0 (resolve_named_volumes (check_if_inside_container d r0))"
proof -
  let ?r = "check_if_inside_container d r0"
  have c: "dt_compositions (r_config ?r) = dt_compositions (r_config r0)" "r_id ?r = r_id r0"
    "dt_network (r_config ?r) = dt_network (r_config r0)" "r_network ?r = r_network r0"
    by (simp_all add: check_if_inside_container_def split: option.split)
  have "own_resources r0 (RemoveVolume v True)" if v: "v \<in> set (r_named_volumes (resolve_named_volumes ?r))" for v
  proof -
    obtain x where "x \<in> (\<Union>c \<in> set (dt_compositions (r_config r0)). fst ` set (comp_named_volumes c))"
      "v = x @ ''-'' @ r_id r0"
      using v resolved_volumes(2) [of ?r] by (auto simp: c)
    then show ?thesis by (fastforce simp: own_resources_def)
  qed
  then show ?thesis
    by (simp add: same_run_def c resolve_named_volumes_def split: prod.split)
qed

text \<open>
  C11: a test removes no network and no volume of anybody else: as long as its body does not, every
  network removal in its whole run is of the network made for it in isolated mode, so external and
  singular networks are never removed; and every volume removal is of a named volume of one of its
  compositions, under the name suffixed with the test's own id.
\<close>

theorem foreign_resources_kept:
  assumes "lawful_waits d" and "\<And>e. issues (own_resources r) (test e)"
  shows "extends (own_resources r) s (snd (run_impl d sched r test s))"
proof -
  have run: "same_run r (resolve_named_volumes (check_if_inside_container d r))"
    by (rule same_run_resolved)
  then have r: "same_run r ((resolve_named_volumes (check_if_inside_container d r))
      \<lparr>r_config := (r_config (resolve_named_volumes (check_if_inside_container d r)))\<lparr>dt_compositions := []\<rparr>\<rparr>)"
    by (simp add: same_run_def)
  have pull: "issues (own_resources r) (pull_images d src e)" for src e
    unfolding pull_images_def by (intro issues_rules) (auto intro!: issues_pull_image)
  have names: "issues (own_resources r) (resolve_final_container_name d ns e)" for ns e
    unfolding resolve_final_container_name_def by (intro issues_rules issues_configure_names)
  have "issues (own_resources r) (run_impl d sched r test)"
    unfolding run_impl_def Let_def
    by (auto intro!: issues_rules names pull issues_resolve_network [OF r]
        issues_run_containers [OF assms(1) r assms(2)] split: result.split)
  then show ?thesis by (simp add: within_def)
qed

end
