(* ===== verification/Outcome.thy ===== *)
theory Outcome
  imports Connection Handles Resources
begin

text \<open>
  Which form every container has in each phase on the way from the creation to the cleanup
  (\<open>src/engine.rs\<close>).
\<close>

section \<open>The form of a container in each phase\<close>

fun created_form :: "transitional \<Rightarrow> bool" where
  "created_form (TPending _) \<longleftrightarrow> True"
| "created_form (TStaticExternal _) \<longleftrightarrow> True"
| "created_form _ \<longleftrightarrow> False"

fun ready_form :: "transitional \<Rightarrow> bool" where
  "ready_form (TRunning _) \<longleftrightarrow> True"
| "ready_form (TStaticExternal _) \<longleftrightarrow> True"
| "ready_form _ \<longleftrightarrow> False"

lemma created_as_form: "created_as m t \<Longrightarrow> (\<And>err. t \<noteq> TCreationFailure err) \<Longrightarrow> created_form t"
  by (cases t) auto

lemma ignite_forms:
  assumes "ignite d nw mode e s = (Ok e', s')"
  shows "eng_keeper e' = eng_keeper e \<and> length (eng_phase e') = length (eng_phase e)
    \<and> list_all created_form (eng_phase e')"
proof -
  note i = ignite_created [OF assms, simplified]
  then have "list_all created_form (eng_phase e')"
    by (auto simp: list_all_length list_all2_conv_all_nth intro!: created_as_form) (metis nth_mem)
  with i show ?thesis by (auto dest: list_all2_lengthD)
qed

lemma orbiting_length:
  assumes "orbiting d sched e s = (Ok e', s')"
  shows "eng_keeper e' = eng_keeper e \<and> length (eng_phase e') = length (eng_phase e)"
proof -
  obtain kept where "start_containers d sched (eng_phase e) s = (Ok kept, s')" "e' = e\<lparr>eng_phase := kept\<rparr>"
    using assms by (auto simp: orbiting_def ret_defs elim!: matchR_cases)
  then show ?thesis
    by (auto simp: start_containers_def Let_def ret_defs simp del: fold_append elim!: bindR_Ok split: prod.splits)
qed

lemma inspected_form: "inspected t t' \<Longrightarrow> ready_form t' = ready_form t"
  by (cases t; cases t') auto

lemma inspect_forms:
  assumes "inspect d nn e s = (Ok (e', errors) :: ('e, _) result, s')"
  shows "eng_keeper e' = eng_keeper e \<and> length (eng_phase e') = length (eng_phase e)
    \<and> (list_all ready_form (eng_phase e) \<longrightarrow> list_all ready_form (eng_phase e'))"
proof -
  have "length ys = length xs \<and> (list_all ready_form xs \<longrightarrow> list_all ready_form ys)"
    if "list_all2 inspected xs ys" for xs ys
    using that by (induction rule: list_all2_induct) (auto dest: inspected_form)
  with inspect_effect [OF assms] show ?thesis by blast
qed

lemma decommission_ready:
  assumes "list_all ready_form (eng_phase e)"
  shows "length (deb_kept (eng_phase (decommission_orbiting e)))
    + length (deb_external (eng_phase (decommission_orbiting e))) = length (eng_phase e)"
proof -
  have "length (List.map_filter (\<lambda>t. case t of TRunning r \<Rightarrow> Some (cleanup_from_operational r) | _ \<Rightarrow> None) ts)
    + length (external_refs ts) = length ts" if "list_all ready_form ts" for ts
    using that by (induction ts) (auto simp: external_refs_def map_filter_simps split: transitional.splits)
  with assms show ?thesis by (simp add: decommission_orbiting_def)
qed

lemma started_ready_forms:
  assumes "lawful_waits d" and "statics_ok s"
    and "ignite d nw mode e s = (Ok e1, s1)" and "orbiting d sched e1 s1 = (Ok e2, s2)"
    and "distinct (map pend_id (pending_of (eng_phase e1)))"
    and "pend_handle ` set (pending_of (eng_phase e1)) \<inter> ext_handle ` set (external_refs (eng_phase e1)) = {}"
  shows "list_all ready_form (eng_phase e2)"
proof -
  have reg: "statics_ok s1 \<and> (\<forall>p \<in> set (pending_of (eng_phase e1)). registered s1 p)"
    using ignite_registers [OF assms(2,3)] by simp
  note placed = orbiting_placed [OF assms(1) reg [THEN conjunct1] reg [THEN conjunct2] assms(4-6)]
  note created = ignite_forms [OF assms(3)]
  have "ready_form (eng_phase e2 ! i)" if "i < length (eng_phase e2)" for i
    using placed created that by (cases "eng_phase e1 ! i") (force simp: list_all_length)+
  then show ?thesis by (simp add: list_all_length)
qed

section \<open>Properties\<close>

text \<open>
  C15: every container has the form of its phase: after a successful creation each is pending or an
  external one; after a successful start, and also after the inspection, each is running or an external
  one, so nothing is left pending, failed or empty; and the cleanup has as many containers and
  references as there were compositions.
\<close>

theorem phase_forms:
  assumes "lawful_waits d" and "statics_ok s"
    and "ignite d nw mode e s = (Ok e1, s1)" and "orbiting d sched e1 s1 = (Ok e2, s2)"
    and "inspect d nn e2 s2 = (Ok (e3, errors) :: ('e, _) result, s3)"
    and "distinct (map pend_id (pending_of (eng_phase e1)))"
    and "pend_handle ` set (pending_of (eng_phase e1)) \<inter> ext_handle ` set (external_refs (eng_phase e1)) = {}"
  shows "list_all created_form (eng_phase e1) \<and> list_all ready_form (eng_phase e2) \<and> list_all ready_form (eng_phase e3)
    \<and> length (deb_kept (eng_phase (decommission_orbiting e3)))
      + length (deb_external (eng_phase (decommission_orbiting e3))) = length (eng_phase e)"
proof -
  have "list_all ready_form (eng_phase e2)"
    using assms(1-4,6,7) by (rule started_ready_forms)
  then show ?thesis
    using ignite_forms [OF assms(3)] orbiting_length [OF assms(4)] inspect_forms [OF assms(5)]
      decommission_ready [of e3] by simp
qed

end
