(* ===== verification/Left_Alone.thy ===== *)
theory Left_Alone
  imports Handles
begin

text \<open>
  External containers from their lookup to the teardown (\<open>src/static_container/external.rs\<close>,
  \<open>src/engine.rs\<close>, \<open>src/docker/container.rs\<close>): they are looked up and connected, and whatever way the
  test takes they are neither stopped nor removed.
\<close>

section \<open>The registries of the containers that are not ours\<close>

















section \<open>The containers with an identifier\<close>









section \<open>Properties\<close>


end
