(* ===== verification/Run_Examples.thy ===== *)
theory Run_Examples
  imports Examples Outcome Left_Alone
begin

text \<open>
  Witnesses for the properties of the whole life of a test, on the daemon of \<open>Sample\<close>: a test with
  the one container \<open>web\<close> on its own network.
\<close>

section \<open>The phases of one test\<close>

lemma sample_statics_ok [simp]: "statics_ok sample_state" "internals_ok (internals sample_state)"
  by (simp_all add: statics_ok_def internals_ok_def)

lemma sample_complete: "complete_inspections sample"
  by (simp add: complete_inspections_def)

lemma sample_always: "env_prune_strategy sample = RemoveRegardless"
  by (simp add: env_prune_strategy_def)

definition sample_ignited :: "transitional list engine" where
  "sample_ignited = \<lparr>eng_keeper = eng_keeper (bootstrap [sample_web]), eng_phase = [TPending sample_pending]\<rparr>"

lemma sample_ignited_facts [simp]:
  "pending_of [TPending p] = [p]" "external_refs [TPending p] = []"
  "eng_phase sample_ignited = [TPending sample_pending]"
  by (simp_all add: sample_ignited_def pending_of_def external_refs_def map_filter_simps)

definition sample_created_state :: "nat sys" where
  "sample_created_state = snd (create_container_inner sample sample_web (Some ''net'') sample_state)"

lemma sample_ignites:
  "ignite sample ''net'' Isolated (bootstrap [sample_web]) sample_state = (Ok sample_ignited, sample_created_state)"
  unfolding sample_ignited_def sample_created_state_def by (rule sample_ignite)

lemma sample_orbits:
  obtains e s where "orbiting sample sample_schedule sample_ignited sample_created_state = (Ok e, s)"
  using sample_orbiting unfolding sample_ignited_def by blast

definition sample_runner :: runner where
  "sample_runner = \<lparr>r_config = \<lparr>dt_compositions = [], dt_namespace = ''ns'', dt_default_source = DockerHub,
     dt_container_id = None, dt_network = Isolated\<rparr>, r_named_volumes = [], r_network = ''net'', r_id = ''id''\<rparr>"

lemma sample_runner_facts [simp]:
  "r_network sample_runner = ''net''" "dt_network (r_config sample_runner) = Isolated"
  by (simp_all add: sample_runner_def)

section \<open>Witnesses\<close>

lemma started_in_place_witness:
  "\<exists>e s r. orbiting sample sample_schedule sample_ignited sample_created_state = (Ok e, s)
     \<and> eng_phase e = [TRunning r] \<and> same_container sample_pending r"
proof -
  obtain e s where o: "orbiting sample sample_schedule sample_ignited sample_created_state = (Ok e, s)"
    by (rule sample_orbits)
  from started_in_place [OF sample_lawful sample_statics_ok(1) sample_ignites o] show ?thesis
    using o by (auto simp: length_Suc_conv)
qed

lemma registries_consistent_witness:
  "statics_ok (snd (create_container sample sample_shared (Some ''net'') Isolated sample_state))"
proof -
  obtain x s' where c: "create_container sample sample_shared (Some ''net'') Isolated sample_state = (x, s')"
    by fastforce
  from registries_consistent [OF sample_statics_ok(1) sample_lawful] show ?thesis
    using c by auto
qed

lemma ignite_in_order_witness:
  "created_as (create_container sample sample_web (Some ''net'') Isolated) (TPending sample_pending)"
  using ignite_in_order [OF sample_ignites] by (auto simp: bootstrap_def)

lemma created_containers_removed_witness:
  "RemoveContainer ''c'' True True \<in> set (calls (snd (run_containers sample sample_schedule sample_runner
     (\<lambda>e. panicR ''assertion failed'') (bootstrap [sample_web]) sample_state)))"
proof -
  let ?test = "\<lambda>e :: transitional list engine. panicR ''assertion failed'' :: (nat sys, unit, unit) action"
  have body: "within keeps_ok (?test e)" for e by (intro well_formed.rules)
  have calm: "orbiting sample sample_schedule sample_ignited sample_created_state \<noteq> (Panic p, t)" for p t
    by (rule sample_orbits) simp
  obtain y s' where run: "run_containers sample sample_schedule sample_runner ?test (bootstrap [sample_web]) sample_state = (y, s')"
    by fastforce
  from created_containers_removed [OF sample_lawful sample_complete sample_always sample_statics_ok(1) body _ _
      calm _ _ run, of "Ok sample_ignited" sample_pending] run
  show ?thesis by (simp add: sample_ignites)
qed

lemma run_reports_first_failure_witness:
  "fst (run_containers sample sample_schedule sample_runner (\<lambda>e. panicR ''assertion failed'') (bootstrap [sample_web])
     sample_state) = Panic ''assertion failed''"
proof -
  let ?test = "\<lambda>e :: transitional list engine. panicR ''assertion failed'' :: (nat sys, unit, unit) action"
  have body: "within keeps_ok (?test e)" for e by (intro well_formed.rules)
  obtain y s' where run: "run_containers sample sample_schedule sample_runner ?test (bootstrap [sample_web]) sample_state = (y, s')"
    by fastforce
  obtain e s where o: "orbiting sample sample_schedule sample_ignited sample_created_state = (Ok e, s)"
    by (rule sample_orbits)
  obtain r where e: "eng_phase e = [TRunning r]"
    using orbiting_placed [OF sample_lawful _ _ o] ignite_registers [OF sample_statics_ok(1) sample_ignites]
    by (auto simp: length_Suc_conv)
  have i: "\<exists>e' s'. inspect sample n e s = (Ok (e', []) :: (docker_test_error, _) result, s')" for n
    by (simp add: inspect_def e get_container_ip_and_ports_def try_from_port_map_def run_simps)
  from run_reports_first_failure [OF sample_lawful sample_complete sample_statics_ok(2) body run] i [of "''net''"]
  have "y = Panic ''assertion failed''"
    by (auto simp: sample_ignites o ret_defs inspect_network_name_def)
  with run show ?thesis by simp
qed

lemma phase_forms_witness:
  "\<exists>e s. orbiting sample sample_schedule sample_ignited sample_created_state = (Ok e, s) \<and> list_all ready_form (eng_phase e)"
proof -
  obtain e s where o: "orbiting sample sample_schedule sample_ignited sample_created_state = (Ok e, s)"
    by (rule sample_orbits)
  obtain r where e: "eng_phase e = [TRunning r]"
    using orbiting_placed [OF sample_lawful _ _ o] ignite_registers [OF sample_statics_ok(1) sample_ignites]
    by (auto simp: length_Suc_conv)
  obtain e' s' where i: "inspect sample ''net'' e s = (Ok (e', []) :: (docker_test_error, _) result, s')"
    by (simp add: inspect_def e get_container_ip_and_ports_def try_from_port_map_def run_simps)
  from phase_forms [OF sample_lawful sample_statics_ok(1) sample_ignites o i] o show ?thesis by simp
qed

lemma foreign_resources_kept_witness:
  "extends (own_resources sample_runner) sample_state
     (snd (run_impl sample sample_schedule sample_runner (\<lambda>e. returnR ()) sample_state))"
  by (rule foreign_resources_kept [OF sample_lawful]) (rule issues_rules)

lemma sample_creates:
  assumes "\<not> is_static c" "img_id (comp_image c) = 0" "id_cells s = [''sha'']" "comp_wait c = NoWait"
    "comp_start_policy c = Relaxed"
  shows "\<exists>p s'. create_container sample c (Some n) mode s = (Ok (Pending p), s')
    \<and> pend_wait p = Some NoWait \<and> pend_start_policy p = Relaxed \<and> \<not> pend_is_static p"
proof -
  have "static_management_policy_of c = None"
    using assms(1) by (simp add: static_management_policy_of_def is_static_def)
  then show ?thesis using assms
    by (simp add: create_container_def create_container_inner_def remove_container_if_exists_def run_simps
        retrieved_id_def read_cell_def PendingContainer_new_def)
qed

lemma sample_starts:
  assumes "pend_wait p = Some NoWait" "\<not> pend_is_static p"
  shows "\<exists>r. start_container sample p s = (Ok r, s\<lparr>calls := calls s @ [StartContainer (pend_name p)],
     state_cells := state_cells s @ [pend_expected_state p]\<rparr>)"
  using assms by (simp add: start_container_def start_container_inner_def wait_for_ready_defs operational_from_def run_simps
     new_state_cell_def)

lemma handle_finds_container_witness:
  "\<exists>ready r. try_handle ready ''web'' = Ok r \<and> oper_handle r = ''web''
     \<and> (\<exists>m. try_handle ready ''db'' = Err (TestBody m))"
proof -
  have web: "\<not> is_static sample_web" "comp_wait sample_web = NoWait" "comp_start_policy sample_web = Relaxed"
    "inject_container_name_env sample_web = []" "handle sample_web = ''web''"
    by (simp_all add: sample_web_def with_image_def is_static_def handle_def sample_image_def)
  obtain ks s1 sfx where ks: "configure_names sample ''ns'' [sample_web] sample_state
      = (Ok ks :: (docker_test_error, _) result, s1)" "ks = [configure_container_name ''ns'' sfx sample_web]"
    using configure_names_total [of sample "''ns''" "[sample_web]" sample_state] by (auto simp: list_all2_Cons1)
  define named where "named = (bootstrap [sample_web])\<lparr>eng_phase := ks\<rparr>"
  have named: "resolve_final_container_name sample ''ns'' (bootstrap [sample_web]) sample_state
      = (Ok named :: (docker_test_error, _) result, s1)"
    using ks(1) by (simp add: resolve_final_container_name_def named_def bootstrap_def returnR_def)
  define c where "c = configure_container_name ''ns'' sfx sample_web"
  have c: "\<not> is_static c" "img_id (comp_image c) = 0" "comp_wait c = NoWait" "comp_start_policy c = Relaxed"
    "inject_container_name_env c = []" "comp_env c = comp_env sample_web"
    using web by (simp_all add: c_def configure_container_name_def is_static_def Let_def)
  have "c\<lparr>comp_env := comp_env c\<rparr> = c" by simp
  then have fueled: "resolve_inject_container_name_env named = Ok named"
    using c by (simp add: resolve_inject_container_name_env_def named_def ks(2) flip: c_def)
       (simp add: inject_env_def)
  obtain p s2 where p: "create_container sample c (Some ''net'') Isolated sample_state = (Ok (Pending p), s2)"
    "pend_wait p = Some NoWait" "pend_start_policy p = Relaxed" "\<not> pend_is_static p"
    using sample_creates [OF c(1,2) sample_state_facts(3) c(3,4)] by blast
  define e where "e = \<lparr>eng_keeper = eng_keeper (bootstrap [sample_web]), eng_phase = [TPending p]\<rparr>"
  have ignited: "ignite sample ''net'' Isolated named sample_state = (Ok e, s2)"
    using p(1) by (simp add: ignite_def named_def ks(2) e_def run_simps transitional_of_def flip: c_def)
  obtain r where r: "start_container sample p s2 = (Ok r, s2\<lparr>calls := calls s2 @ [StartContainer (pend_name p)],
     state_cells := state_cells s2 @ [pend_expected_state p]\<rparr>)"
    using sample_starts p by blast
  obtain e' s3 where orbit: "orbiting sample sample_schedule e s2 = (Ok e', s3)"
    using r p by (simp add: orbiting_def start_containers_def map_err_def e_def wait_for_relaxed_containers_def
       run_task_def static_external_containers_def external_containers_list_def prior_running_containers_def run_simps
       split: prod.split)
  have "eng_phase e = [TPending p]" by (simp add: e_def)
  then obtain x where x: "eng_phase e' = [TRunning x]"
    using orbiting_placed [OF sample_lawful _ _ orbit] ignite_registers [OF sample_statics_ok(1) ignited]
    by (auto simp: length_Suc_conv)
  obtain ready s4 where i: "inspect sample ''net'' e' s3 = (Ok (ready, []) :: (docker_test_error, _) result, s4)"
    by (simp add: inspect_def x get_container_ip_and_ports_def try_from_port_map_def run_simps)
  from handle_finds_container [OF sample_lawful sample_statics_ok(1) named fueled ignited orbit i, of "''db''"]
  show ?thesis using web by (force simp: e_def)
qed

section \<open>An external container\<close>

definition db_running :: operational_container where
  "db_running = \<lparr>oper_handle = ''db'', oper_id = ''db'', oper_name = ''db'', oper_ip = UNSPECIFIED, oper_ports = [],
     oper_is_static = True, oper_log_options = comp_log_options sample_external, oper_assumed_state = 0\<rparr>"


definition db_state :: "nat sys" where
  "db_state = sample_state\<lparr>calls := [InspectContainer ''db'', ConnectNetwork ''net'' ''db''],
     state_cells := [Running], externals := [(''db'', db_running)]\<rparr>"




text \<open>The teardown of a test with a container of its own beside the external one.\<close>

lemma teardown_requests_witness:
  "calls (snd (teardown sample sample_runner
       (decommission_igniting (sample_ignited\<lparr>eng_phase := [TPending sample_pending, TStaticExternal (external_of db_running)]\<rparr>))
       True db_state))
     = calls db_state @ [DisconnectNetwork ''net'' ''db'' True, RemoveContainer ''c'' True True, RemoveNetwork ''net'']"
proof -
  let ?e = "decommission_igniting (sample_ignited\<lparr>eng_phase := [TPending sample_pending, TStaticExternal (external_of db_running)]\<rparr>)"
  have e: "own_containers ?e = [''c'']" "static_ids ?e = [''db'']"
    by (simp_all add: own_containers_def static_ids_def decommission_igniting_def map_filter_simps
        cleanup_from_pending_def external_refs_def external_of_def db_running_def)
  have r: "network_removal sample_runner = [RemoveNetwork ''net'']" "r_named_volumes sample_runner = []"
    by (simp_all add: network_removal_def sample_runner_def)
  have st: "static_requests ''net'' Isolated [''db''] db_state = [DisconnectNetwork ''net'' ''db'' True]"
    by (simp add: static_requests_def running_internals_def last_released_def map_filter_simps db_state_def db_running_def)
  have ok: "internals_ok (internals db_state)" by (simp add: db_state_def internals_ok_def)
  obtain x s' where t: "teardown sample sample_runner ?e True db_state = (x, s')" by fastforce
  show ?thesis
    using teardown_requests [OF ok t] t by (auto simp: e r st sample_always Let_def)
qed

end
