(* ===== verification/Polling.thy ===== *)
theory Polling
  imports Waiting
begin

text \<open>
  What the readiness conditions of \<open>src/waitfor/\<close> decide, against reference definitions that look
  only at what the daemon answers: the polling of the container's status, and the search of its log
  for a message.
\<close>

section \<open>Status polling\<close>

text \<open>
  The world of the daemon at each check, which the check itself and the tick after it move on, and
  whether the check finds the wanted state: an answer without a state, or an error, does not.
\<close>

primrec poll_world :: "'w bollard \<Rightarrow> string \<Rightarrow> 64 word \<Rightarrow> 64 word \<Rightarrow> 'w \<Rightarrow> nat \<Rightarrow> 'w" where
  "poll_world d n i k w 0 = w"
| "poll_world d n i k w (Suc j) =
     poll_world d n i (k + 1) (tick d i k (snd (b_inspect_container d n w))) j"

definition finds_state :: "'w bollard \<Rightarrow> string \<Rightarrow> (container_state \<Rightarrow> bool) \<Rightarrow> 'w \<Rightarrow> bool" where
  "finds_state d n compare w \<longleftrightarrow>
     (case b_inspect_container d n w of
        (Inr details, _) \<Rightarrow>
          (case ir_state details of
             Some (Some st) \<Rightarrow> compare (container_state_from st)
           | _ \<Rightarrow> False)
      | (Inl _, _) \<Rightarrow> False)"

text \<open>The check of the loop that finds the state first, if one of the given number does.\<close>

definition first_find ::
  "'w bollard \<Rightarrow> string \<Rightarrow> 64 word \<Rightarrow> (container_state \<Rightarrow> bool) \<Rightarrow> 64 word \<Rightarrow> 'w \<Rightarrow> nat \<Rightarrow> nat option" where
  "first_find d n i compare k w checks =
     find (\<lambda>j. finds_state d n compare (poll_world d n i k w j)) [0..<checks]"

lemma first_find_step:
  "first_find d n i compare k w (Suc checks) =
     (if finds_state d n compare w then Some 0
      else map_option Suc (first_find d n i compare (k + 1)
        (tick d i k (snd (b_inspect_container d n w))) checks))"
proof -
  have "find P (map Suc xs) = map_option Suc (find (\<lambda>j. P (Suc j)) xs)" for P xs
    by (induction xs) auto
  then show ?thesis
    by (simp add: first_find_def upt_conv_Cons flip: map_Suc_upt del: upt_Suc)
qed

lemma poll_check:
  "matchR (get_container_state d n) (\<lambda>c. returnR (compare c)) (\<lambda>_. returnR False) s =
     (Ok (finds_state d n compare (world s)) :: (docker_test_error, bool) result,
      s\<lparr>world := snd (b_inspect_container d n (world s)), calls := calls s @ [InspectContainer n]\<rparr>)"
  by (simp add: get_container_state_def finds_state_def issue_def action_defs
      split: prod.split sum.split option.split)

lemma poll_loop_stop: "m \<le> k \<Longrightarrow> poll_loop d n i m compare k b = returnR b"
  by (subst poll_loop.simps) simp

lemma poll_loop_step:
  assumes "\<not> m \<le> k"
  shows "poll_loop d n i m compare k b s =
    (let t = s\<lparr>world := snd (b_inspect_container d n (world s)), calls := calls s @ [InspectContainer n]\<rparr> in
     if finds_state d n compare (world s) then (Ok True, t)
     else poll_loop d n i m compare (k + 1) False (t\<lparr>world := tick d i k (world t)\<rparr>))"
  using assms
  by (subst poll_loop.simps)
     (simp add: matchR_eq(1) [OF poll_check] Let_def, simp add: returnR_def in_world_def bindR_def matchR_def)

lemma unat_next:
  fixes k m :: "64 word"
  assumes "\<not> m \<le> k"
  shows "unat m - unat k = Suc (unat m - unat (k + 1))"
proof -
  have "unat k < unat m" using assms by (simp add: word_le_nat_alt)
  moreover have "1 + k \<noteq> 0" using assms by (metis add.commute add_eq_0_iff word_n1_ge)
  then have "unat (k + 1) = Suc (unat k)" by (simp add: unatSuc add.commute)
  ultimately show ?thesis by simp
qed

lemma poll_loop_found:
  "\<exists>w'. poll_loop d n i m compare k False s =
     (case first_find d n i compare k (world s) (unat m - unat k) of
        Some j \<Rightarrow> (Ok True, s\<lparr>world := w', calls := calls s @ replicate (Suc j) (InspectContainer n)\<rparr>)
      | None \<Rightarrow> (Ok False,
          s\<lparr>world := w', calls := calls s @ replicate (unat m - unat k) (InspectContainer n)\<rparr>))"
proof (induction "unat m - unat k" arbitrary: k s)
  case 0
  then have "m \<le> k" by (simp add: word_le_nat_alt)
  then show ?case
    by (simp add: poll_loop_stop first_find_def returnR_def flip: 0) (metis sys.surjective sys.update_convs(1))
next
  case (Suc c)
  then have less: "\<not> m \<le> k" by (auto simp: word_le_nat_alt)
  have next_c: "unat m - unat (k + 1) = c" using unat_next [OF less] Suc.hyps(2) by simp
  let ?t = "s\<lparr>world := snd (b_inspect_container d n (world s)), calls := calls s @ [InspectContainer n]\<rparr>"
  let ?u = "?t\<lparr>world := tick d i k (world ?t)\<rparr>"
  show ?case
  proof (cases "finds_state d n compare (world s)")
    case True
    then show ?thesis
      by (intro exI [of _ "world ?t"]) (simp add: poll_loop_step [OF less] Let_def first_find_step flip: Suc.hyps(2))
  next
    case False
    obtain w' where "poll_loop d n i m compare (k + 1) False ?u =
     (case first_find d n i compare (k + 1) (world ?u) c of
        Some j \<Rightarrow> (Ok True, ?u\<lparr>world := w', calls := calls ?u @ replicate (Suc j) (InspectContainer n)\<rparr>)
      | None \<Rightarrow> (Ok False, ?u\<lparr>world := w', calls := calls ?u @ replicate c (InspectContainer n)\<rparr>))"
      using Suc.hyps(1) [of "k + 1" ?u] next_c by auto
    with False show ?thesis
      by (intro exI [of _ w'])
         (simp add: poll_loop_step [OF less] Let_def first_find_step flip: Suc.hyps(2) split: option.split)
  qed
qed

text \<open>
  C19: waiting for a container's status is a bounded search: it asks the daemon for the container until
  the first check that finds the wanted state, the container then being the one it was given, and
  otherwise exactly \<open>max_checks\<close> times, failing with the status error. It always finishes, also with
  no checks or the largest number of them; only an interval of zero is a panic, with no request.
\<close>

theorem status_wait_decides:
  "case wait_for_container_state d p i m compare s of (r, s') \<Rightarrow>
     if i = 0 then r = Panic ''`period` must be non-zero.'' \<and> s' = s
     else (case first_find d (pend_name p) i compare 0 (world s) (unat m) of
         Some j \<Rightarrow> j < unat m \<and> (\<exists>c. r = Ok c \<and> same_container p c)
           \<and> calls s' = calls s @ replicate (Suc j) (InspectContainer (pend_name p))
       | None \<Rightarrow> r = Err (Startup ''status waitfor is not triggered'')
           \<and> calls s' = calls s @ replicate (unat m) (InspectContainer (pend_name p)))"
proof -
  obtain w' where "poll_loop d (pend_name p) i m compare 0 False s =
     (case first_find d (pend_name p) i compare 0 (world s) (unat m) of
        Some j \<Rightarrow> (Ok True, s\<lparr>world := w', calls := calls s @ replicate (Suc j) (InspectContainer (pend_name p))\<rparr>)
      | None \<Rightarrow> (Ok False,
          s\<lparr>world := w', calls := calls s @ replicate (unat m) (InspectContainer (pend_name p))\<rparr>))"
    using poll_loop_found [of d "pend_name p" i m compare 0 s] unfolding unsigned_0 diff_zero by blast
  moreover have "first_find d (pend_name p) i compare 0 (world s) (unat m) = Some j \<Longrightarrow> j < unat m" for j
    by (auto simp: first_find_def find_Some_iff)
  ultimately show ?thesis
    by (auto simp: wait_for_container_state_def bindR_eq operational_from_eq same_container_def ret_defs
        split: option.split)
qed

section \<open>Log messages\<close>

text \<open>
  The entries of the followed stream that the source selects, with the times they arrive at, and what
  one of them can do: show the message in time, be passed over in time, or be no text.
\<close>

definition selected_entries ::
  "'w bollard \<Rightarrow> string \<Rightarrow> message_source \<Rightarrow> 'w \<Rightarrow> (nat \<times> (docker_test_error + log_entry)) list" where
  "selected_entries d cid src w = List.map_filter
     (\<lambda>(t, chunk). map_option (Pair t) (log_chunk d (container_log_source_from src) chunk))
     (ls_items (fst (b_logs d cid True (src = Stderr) (src = Stdout) w)))"

definition closes_at :: "'w bollard \<Rightarrow> string \<Rightarrow> message_source \<Rightarrow> 'w \<Rightarrow> nat option" where
  "closes_at d cid src w = ls_closed (fst (b_logs d cid True (src = Stderr) (src = Stdout) w))"

definition text_in_time :: "nat \<Rightarrow> (string \<Rightarrow> bool) \<Rightarrow> nat \<times> (docker_test_error + log_entry) \<Rightarrow> bool" where
  "text_in_time deadline P x \<longleftrightarrow>
     (case x of (t, entry) \<Rightarrow> t \<le> deadline \<and> (\<exists>e. entry = Inr e \<and> utf8_valid (le_message e) \<and> P (le_message e)))"

abbreviation has_message :: "nat \<Rightarrow> string \<Rightarrow> nat \<times> (docker_test_error + log_entry) \<Rightarrow> bool" where
  "has_message deadline msg \<equiv> text_in_time deadline (sublist msg)"

abbreviation passed_over :: "nat \<Rightarrow> string \<Rightarrow> nat \<times> (docker_test_error + log_entry) \<Rightarrow> bool" where
  "passed_over deadline msg \<equiv> text_in_time deadline (\<lambda>m. \<not> sublist msg m)"

definition no_text :: "nat \<Rightarrow> nat \<times> (docker_test_error + log_entry) \<Rightarrow> bool" where
  "no_text deadline x \<longleftrightarrow>
     (case x of (t, entry) \<Rightarrow> t \<le> deadline \<and> (\<exists>e. entry = Inr e \<and> \<not> utf8_valid (le_message e)))"

text \<open>The first entry that is not passed over decides.\<close>

definition decided_by :: "('a \<Rightarrow> bool) \<Rightarrow> ('a \<Rightarrow> bool) \<Rightarrow> 'a list \<Rightarrow> bool" where
  "decided_by P over xs \<longleftrightarrow> (\<exists>j < length xs. P (xs ! j) \<and> (\<forall>l < j. over (xs ! l)))"

lemma decided_by_simps [simp]:
  "\<not> decided_by P over []"
  "decided_by P over (x # xs) \<longleftrightarrow> P x \<or> over x \<and> decided_by P over xs"
  by (simp_all add: decided_by_def Ex_less_Suc2 All_less_Suc2) blast

lemma follow_stream_decided:
  "follow_stream deadline msg closed items = Seen \<longleftrightarrow>
     decided_by (has_message deadline msg) (passed_over deadline msg) items"
  "follow_stream deadline msg closed items = BadUtf8 \<longleftrightarrow>
     decided_by (no_text deadline) (passed_over deadline msg) items"
  "follow_stream deadline msg closed items = TimedOut \<longleftrightarrow>
     decided_by (\<lambda>x. deadline < fst x) (passed_over deadline msg) items
   \<or> list_all (passed_over deadline msg) items \<and> (case closed of None \<Rightarrow> True | Some t \<Rightarrow> deadline < t)"
  by (induction deadline msg closed items rule: follow_stream.induct)
     (auto simp: text_in_time_def no_text_def contains_sub_sublist split: sum.splits option.splits)

text \<open>
  C20: waiting for a message reads the selected log of the container once, following it, and is decided
  by the first entry that is not a text without the message arriving in time: it hands the container
  on exactly when that entry shows the message before the deadline, panics exactly when it is not
  UTF-8, reports a timeout exactly when it comes too late or never comes while the stream stays open,
  and reports the end of the stream otherwise.
\<close>

theorem message_wait_decides:
  "case pending_container_wait_for_message d p src msg secs s of (r, s') \<Rightarrow>
     (let deadline = unat secs * 1000; over = passed_over deadline msg;
          items = selected_entries d (pend_id p) src (world s);
          closed = closes_at d (pend_id p) src (world s);
          timed_out = (decided_by (\<lambda>x. deadline < fst x) over items
            \<or> list_all over items \<and> (case closed of None \<Rightarrow> True | Some t \<Rightarrow> deadline < t)) in
      calls s' = calls s @ [ContainerLogs (pend_id p) True (src = Stderr) (src = Stdout)]
    \<and> (if decided_by (has_message deadline msg) over items then \<exists>c. r = Ok c \<and> same_container p c
       else if decided_by (no_text deadline) over items
         then r = Panic ''called `Result::unwrap()` on an `Err` value''
       else if timed_out then r = Err (Startup ''awaiting container message timed out'')
       else r = Err (Startup (''container `'' @ pend_handle p
         @ ''` ended log stream (terminated) before waitfor message triggered: `'' @ msg @ ''`''))))"
proof -
  have src: "log_stderr (container_log_source_from src) = (src = Stderr)"
    "log_stdout (container_log_source_from src) = (src = Stdout)"
    "log_chunk d ((container_log_source_from src)\<lparr>log_follow := True\<rparr>) = log_chunk d (container_log_source_from src)"
    for d :: "'w bollard"
    by (cases src; simp) (cases src; simp; rule ext; rename_tac c; case_tac "(d, undefined, c)" rule: log_chunk.cases; simp)+
  obtain stream w where stream: "b_logs d (pend_id p) True (src = Stderr) (src = Stdout) (world s) = (stream, w)"
    by fastforce
  let ?items = "selected_entries d (pend_id p) src (world s)"
  let ?t = "s\<lparr>world := w, calls := calls s @ [ContainerLogs (pend_id p) True (src = Stderr) (src = Stdout)]\<rparr>"
  have logs: "container_logs d (pend_id p) ((container_log_source_from src)\<lparr>log_follow := True\<rparr>) s
      = (Ok \<lparr>es_items = ?items, es_closed = ls_closed stream\<rparr> :: (docker_test_error, _) result, ?t)"
    using stream
    by (simp add: container_logs_def src selected_entries_def issue_stream_def action_defs)
  have closed: "closes_at d (pend_id p) src (world s) = ls_closed stream"
    by (simp add: closes_at_def stream)
  show ?thesis
    unfolding pending_container_wait_for_message_def wait_for_message_def
    using follow_stream_decided [of "unat secs * 1000" msg "ls_closed stream" ?items]
    by (cases "follow_stream (unat secs * 1000) msg (ls_closed stream) ?items")
       (auto simp: logs closed matchR_def ret_defs operational_from_eq same_container_def Let_def)
qed

end
