(* ===== verification/Ports.thy ===== *)
theory Ports
  imports Docker_Creation
begin

text \<open>
  Host ports, from the configuration to the test body: \<open>port_map\<close> of \<open>src/composition.rs\<close> writes them
  into the create request, and \<open>src/container/operational.rs\<close> reads them back from the daemon's
  description of the container.
\<close>

section \<open>Reading a port map\<close>

definition readable_key :: "string \<Rightarrow> bool" where
  "readable_key key \<longleftrightarrow> CHR ''/'' \<in> set key \<and> (\<exists>k. u32_from_str (hd (split_char (CHR ''/'') key)) = Inr k)"

definition readable :: "(string \<times> port_binding list option) list \<Rightarrow> bool" where
  "readable p \<longleftrightarrow> (\<forall>key bs. (key, Some bs) \<in> set p \<longrightarrow>
     readable_key key \<and> (\<forall>b \<in> set bs. \<exists>x. from_port_binding b = Inr x))"

lemma readable_simps [simp]:
  "readable []" "readable ((key, None) # p) \<longleftrightarrow> readable p"
  "readable ((key, Some bs) # p) \<longleftrightarrow>
     readable_key key \<and> (\<forall>b \<in> set bs. \<exists>x. from_port_binding b = Inr x) \<and> readable p"
  by (auto simp: readable_def)

lemma hd_split_char: "split_char d s ! 0 = hd (split_char d s)"
  by (simp add: hd_conv_nth)

lemma few_pieces: "length (split_char d s) < 2 \<longleftrightarrow> d \<notin> set s"
  by (simp add: split_char_length count_list_0_iff less_Suc_eq)

lemma add_bindings_total:
  "(\<exists>m'. add_bindings k bs m = Inr m') \<longleftrightarrow> (\<forall>b \<in> set bs. \<exists>x. from_port_binding b = Inr x)"
  by (induction k bs m rule: add_bindings.induct) (auto split: sum.splits option.splits)

lemma add_bindings_dom:
  assumes "add_bindings k bs m = Inr m'"
  shows "map_of m' j \<noteq> None \<longleftrightarrow>
    map_of m j \<noteq> None \<or> j = k \<and> (\<exists>b \<in> set bs. \<exists>v. from_port_binding b = Inr (Some v))"
  using assms
  by (induction k bs m rule: add_bindings.induct) (auto split: sum.splits option.splits if_splits)

lemma add_port_map_total: "(\<exists>m'. add_port_map p m = Inr m') \<longleftrightarrow> readable p"
proof (induction p m rule: add_port_map.induct)
  case (3 key bindings rest m)
  show ?case
  proof (cases "readable_key key")
    case True
    then obtain k where k: "u32_from_str (split_char (CHR ''/'') key ! 0) = Inr k"
      "\<not> length (split_char (CHR ''/'') key) < 2"
      by (auto simp: readable_key_def hd_split_char few_pieces)
    with "3.IH" [OF refl k(2,1)] add_bindings_total [of k bindings m] True show ?thesis
      by (cases "add_bindings k bindings m") (auto simp: Let_def)
  next
    case False
    then show ?thesis
      by (auto simp: readable_key_def hd_split_char few_pieces Let_def split: sum.split)
  qed
qed auto

lemma binding_source_Cons:
  "binding_source ((key, Some bs) # rest) k v \<longleftrightarrow>
     u32_from_str (split_char (CHR ''/'') key ! 0) = Inr k \<and> (\<exists>b \<in> set bs. from_port_binding b = Inr (Some v))
   \<or> binding_source rest k v"
  unfolding binding_source_def by (simp add: ex_disj_distrib conj_disj_distribR) blast

lemma add_port_map_dom:
  assumes "add_port_map p m = Inr m'"
  shows "map_of m' j \<noteq> None \<longleftrightarrow> map_of m j \<noteq> None \<or> (\<exists>v. binding_source p j v)"
  using assms
proof (induction p m rule: add_port_map.induct)
  case (1 m)
  then show ?case by (simp add: binding_source_def)
next
  case (2 key rest m)
  then show ?case by (simp add: binding_source_def)
next
  case (3 key bindings rest m)
  then obtain k m1 where k: "u32_from_str (split_char (CHR ''/'') key ! 0) = Inr k"
    and m1: "add_bindings k bindings m = Inr m1" and rest: "add_port_map rest m1 = Inr m'"
    and long: "\<not> length (split_char (CHR ''/'') key) < 2"
    by (auto simp: Let_def split: if_splits sum.splits)
  have "(\<exists>v. binding_source ((key, Some bindings) # rest) j v) \<longleftrightarrow>
      j = k \<and> (\<exists>b \<in> set bindings. \<exists>v. from_port_binding b = Inr (Some v)) \<or> (\<exists>v. binding_source rest j v)"
    using k by (simp add: binding_source_Cons) blast
  with "3.IH" [OF refl long k m1 rest] add_bindings_dom [OF m1, of j] show ?case by blast
qed

text \<open>
  C38: the daemon's port map is read exactly when every key is a number followed by a slash and every
  binding has a port and an address, all of which parse; then a port has an entry exactly when some
  IPv4 binding of it exists, and the entry is one of these. Keys without bindings and IPv6 bindings
  do not matter.
\<close>

theorem port_map_read:
  shows "case try_from_port_map p of
      Inl e \<Rightarrow> \<not> readable p
    | Inr m \<Rightarrow> readable p \<and> (\<forall>k. case map_of m k of
          None \<Rightarrow> \<nexists>v. binding_source p k v
        | Some v \<Rightarrow> binding_source p k v)"
proof (cases "try_from_port_map p")
  case (Inl e)
  with add_port_map_total [of p "[]"] show ?thesis by (simp add: try_from_port_map_def)
next
  case (Inr m)
  then have m: "add_port_map p [] = Inr m" by (simp add: try_from_port_map_def)
  have "case map_of m k of None \<Rightarrow> \<nexists>v. binding_source p k v | Some v \<Rightarrow> binding_source p k v" for k
    using add_port_map_dom [OF m, of k] add_port_map_sound [OF m, of k] by (auto split: option.split)
  with Inr m add_port_map_total [of p "[]"] show ?thesis by auto
qed

section \<open>The configured ports\<close>

abbreviation port_key :: "32 word \<Rightarrow> string" where
  "port_key e \<equiv> show_u32 e @ ''/tcp''"

definition bound_to :: "32 word \<Rightarrow> port_binding list" where
  "bound_to h = [\<lparr>pb_host_ip = Some ''127.0.0.1'', pb_host_port = Some (show_u32 h)\<rparr>]"

definition localhost :: ipv4 where
  "localhost = Ipv4 127 0 0 1"

lemma show_u32_inj [simp]: "show_u32 a = show_u32 b \<longleftrightarrow> a = b"
proof
  assume "show_u32 a = show_u32 b"
  then have "u32_from_str (show_u32 a) = u32_from_str (show_u32 b)" by simp
  then show "a = b" by (simp add: u32_from_str_show)
qed simp

lemma read_localhost: "ip_addr_from_str ''127.0.0.1'' = Some (V4 localhost)"
  unfolding localhost_def by code_simp

lemma update_mapped_key:
  "AList.update (port_key e) (bound_to h) (map (\<lambda>(e, h). (port_key e, bound_to h)) m)
     = map (\<lambda>(e, h). (port_key e, bound_to h)) (AList.update e h m)"
  by (induction m) auto

lemma port_bindings_of_configured:
  "port_bindings_of (map (\<lambda>(e, h). (port_key e, show_u32 h)) ps) =
     map (\<lambda>(e, h). (port_key e, bound_to h)) (fold (\<lambda>(e, h). AList.update e h) ps [])"
proof -
  have "fold (\<lambda>(exposed, host) m. AList.update exposed
      [\<lparr>pb_host_ip = Some ''127.0.0.1'', pb_host_port = Some host\<rparr>] m) (map (\<lambda>(e, h). (port_key e, show_u32 h)) ps)
      (map (\<lambda>(e, h). (port_key e, bound_to h)) m)
    = map (\<lambda>(e, h). (port_key e, bound_to h)) (fold (\<lambda>(e, h). AList.update e h) ps m)" for m
    by (induction ps arbitrary: m) (auto simp: update_mapped_key simp flip: bound_to_def)
  from this [of "[]"] show ?thesis by (simp add: port_bindings_of_def)
qed

lemma fold_update_facts:
  "distinct (map fst m) \<Longrightarrow> distinct (map fst (fold (\<lambda>(e, h). AList.update e h) ps m))
    \<and> map_of (fold (\<lambda>(e, h). AList.update e h) ps m) = map_of m ++ map_of (rev ps)"
proof (induction ps arbitrary: m)
  case (Cons p ps)
  obtain e h where p: "p = (e, h)" by fastforce
  show ?case
    using Cons.IH [of "AList.update e h m"] Cons.prems by (auto simp: p distinct_update fun_eq_iff map_add_def split: option.split)
qed simp

lemma add_port_map_configured:
  assumes "distinct (map fst ps)" and "\<And>e. e \<in> fst ` set ps \<Longrightarrow> map_of m e = None"
  shows "\<exists>m'. add_port_map (map (\<lambda>(e, h). (port_key e, Some (bound_to h))) ps) m = Inr m'
    \<and> map_of m' = map_of m ++ map_of (map (\<lambda>(e, h). (e, localhost, h)) ps)"
  using assms
proof (induction ps arbitrary: m)
  case Nil
  then show ?case by simp
next
  case (Cons p ps)
  obtain e h where p: "p = (e, h)" by fastforce
  let ?m = "AList.update e (localhost, h) m"
  have add: "add_bindings e (bound_to h) m = Inr ?m"
    using Cons.prems(2) [of e] by (simp add: p bound_to_def from_port_binding_def read_localhost u32_from_str_show)
  have dom: "map_of ?m x = None" if "x \<in> fst ` set ps" for x
    using that Cons.prems by (auto simp: p)
  obtain m' where m': "add_port_map (map (\<lambda>(e, h). (port_key e, Some (bound_to h))) ps) ?m = Inr m'"
    "map_of m' = map_of ?m ++ map_of (map (\<lambda>(e, h). (e, localhost, h)) ps)"
    using Cons.IH [OF _ dom] Cons.prems(1) by (auto simp: fun_upd_def)
  have "map_of (map (\<lambda>(e, h). (e, localhost, h)) ps) e = None"
    using Cons.prems(1) by (auto simp: p map_of_eq_None_iff image_iff)
  then have "map_of m' = map_of m ++ map_of (map (\<lambda>(e, h). (e, localhost, h)) (p # ps))"
    by (auto simp: m'(2) p map_add_def split: option.split)
  with add m'(1) show ?case
    by (auto simp: p port_key_roundtrip port_key_length Let_def fun_eq_iff map_add_def)
qed

text \<open>
  C18: configured ports come back: whatever ports are mapped with \<open>port_map\<close>, if the daemon reports
  the bindings it was asked for, then looking up an exposed port in the running container finds the
  host port mapped to it last, on the loopback address, and nothing for any other port.
\<close>

theorem configured_ports_roundtrip:
  "\<exists>hc m. cb_host_config (create_body (fold (\<lambda>(e, h). port_map e h) ps (with_image i)) image_id (Some n)) = Some hc
    \<and> try_from_port_map (map (\<lambda>(key, bs). (key, Some bs)) (hc_port_bindings hc)) = Inr m
    \<and> host_port (r\<lparr>oper_ports := m\<rparr>) e = map_option (Pair localhost) (map_of (rev ps) e)"
proof -
  define c where "c = fold (\<lambda>(e, h). port_map e h) ps (with_image i)"
  have "comp_port (fold (\<lambda>(e, h). port_map e h) ps c0)
      = comp_port c0 @ map (\<lambda>(e, h). (port_key e, show_u32 h)) ps" for c0
    by (induction ps arbitrary: c0) (auto simp: port_map_def)
  then have ports: "comp_port c = map (\<lambda>(e, h). (port_key e, show_u32 h)) ps"
    by (simp add: c_def with_image_def)
  let ?qs = "fold (\<lambda>(e, h). AList.update e h) ps []"
  have q: "distinct (map fst ?qs)" "map_of ?qs = map_of (rev ps)"
    using fold_update_facts [of "[]" ps] by simp_all
  obtain m where m: "add_port_map (map (\<lambda>(e, h). (port_key e, Some (bound_to h))) ?qs) [] = Inr m"
    "map_of m = map_of (map (\<lambda>(e, h). (e, localhost, h)) ?qs)"
    using add_port_map_configured [OF q(1), of "[]"] by auto
  have "map_of (map (\<lambda>(e, h). (e, localhost, h)) xs) k = map_option (Pair localhost) (map_of xs k)"
    for xs :: "(32 word \<times> 32 word) list" and k
    by (induction xs) auto
  moreover have "map (\<lambda>(key, bs). (key, Some bs)) (port_bindings_of (comp_port c))
      = map (\<lambda>(e, h). (port_key e, Some (bound_to h))) ?qs"
    by (simp add: ports port_bindings_of_configured case_prod_beta)
  ultimately show ?thesis
    using m q(2) by (simp add: create_body_def try_from_port_map_def host_port_def flip: c_def)
qed

end
