(* ===== verification/Pulling.thy ===== *)
theory Pulling
  imports Engine
begin

text \<open>
  From an image to the container made of it: what \<open>pull_image\<close> of \<open>src/docker/image.rs\<close> asks for under
  each source and pull policy, how the identifier it finds reaches the create request through the
  cell that the clones of an image share, and what happens when it does not.
\<close>

section \<open>Pulling one image\<close>

definition effective_source :: "image \<Rightarrow> source \<Rightarrow> source" where
  "effective_source i default_source = (case img_source i of None \<Rightarrow> default_source | Some r \<Rightarrow> r)"

definition pulls :: "image \<Rightarrow> bool \<Rightarrow> source \<Rightarrow> bool" where
  "pulls i exists src \<longleftrightarrow>
     src \<noteq> Local \<and> (img_pull_policy i = Always \<or> img_pull_policy i = IfNotPresent \<and> \<not> exists)"

text \<open>A local source and the policy \<open>Never\<close> need the image to be there.\<close>

definition must_exist :: "image \<Rightarrow> source \<Rightarrow> bool" where
  "must_exist i src \<longleftrightarrow> src = Local \<or> img_pull_policy i = Never"

lemma should_pull_decision:
  "should_pull i b src = (if must_exist i src \<and> \<not> b
     then Inl (pull_error i (if src = Local
       then ''image does not exist locally and image source is set to local''
       else ''image does not exist locally and pull policy is set to never''))
     else Inr (pulls i b src))"
  by (cases src; cases "img_pull_policy i") (auto simp: must_exist_def pulls_def)

lemma does_image_exist_known:
  assumes "does_image_exist d i s = (Ok b, s')"
  shows "b \<longleftrightarrow> (\<exists>x. fst (b_inspect_image d (image_reference i) (world s)) = Inr x)"
  using assms unfolding does_image_exist_def
  by (elim matchR_cases issue_cases) (auto simp: ret_defs split: b_error.splits if_splits)

lemma pull_image_spec:
  assumes "pull_image d i default_source s = (Ok (), s')"
  obtains b auth v w where
    "b \<longleftrightarrow> (\<exists>x. fst (b_inspect_image d (image_reference i) (world s)) = Inr x)"
    "must_exist i (effective_source i default_source) \<Longrightarrow> b"
    "pulls i b (effective_source i default_source) \<Longrightarrow> resolve_auth d i (effective_source i default_source) = Ok auth"
    "calls s' = calls s @ [InspectImage (image_reference i)]
       @ (if pulls i b (effective_source i default_source) then [CreateImage (img_repository i) (img_tag i) auth] else [])
       @ [InspectImage (image_reference i)]"
    "fst (b_inspect_image d (image_reference i) w) = Inr (Some v)"
    "id_cells s' = (id_cells s)[img_id i := v]"
proof -
  let ?src = "effective_source i default_source"
  obtain b s1 pull s2 u s3 v s4
    where 1: "does_image_exist d i s = (Ok b, s1)"
      and 2: "liftE (should_pull i b ?src) s1 = (Ok pull, s2)"
      and 3: "(if pull then bindR (liftR (resolve_auth d i ?src)) (do_pull d i) else returnR ()) s2
                = (Ok u, s3)"
      and 4: "get_image_id d i s3 = (Ok v, s4)"
      and 5: "set_id i v s4 = (Ok () :: (docker_test_error, unit) result, s')"
    using assms unfolding pull_image_def Let_def effective_source_def [symmetric] by (elim bindR_Ok) (rule that)
  have s2: "must_exist i ?src \<Longrightarrow> b" "pull = pulls i b ?src" "s2 = s1"
    using 2 by (auto simp: should_pull_decision liftE_def ret_defs split: if_splits)
  have "\<exists>auth. (pull \<longrightarrow> resolve_auth d i ?src = Ok auth) \<and> id_cells s3 = id_cells s2
    \<and> calls s3 = calls s2 @ (if pull then [CreateImage (img_repository i) (img_tag i) auth] else [])"
  proof (cases pull)
    case True
    with 3 obtain auth sa where a: "liftR (resolve_auth d i ?src) s2 = (Ok auth, sa)"
      and b: "do_pull d i auth sa = (Ok u, s3)"
      by (auto elim: bindR_Ok)
    have "sa = s2" "resolve_auth d i ?src = Ok auth"
      using a by (simp_all add: liftR_def)
    with do_pull_Ok [of d i auth sa s3] b True show ?thesis
      by (intro exI [of _ auth]) simp
  next
    case False
    with 3 show ?thesis by (simp add: action_defs)
  qed
  then obtain auth where "pull \<longrightarrow> resolve_auth d i ?src = Ok auth" "id_cells s3 = id_cells s2"
    "calls s3 = calls s2 @ (if pull then [CreateImage (img_repository i) (img_tag i) auth] else [])"
    by blast
  with does_image_exist_Ok [OF 1] does_image_exist_known [OF 1] get_image_id_Ok [OF 4] s2 5 that [of b auth "world s3" v]
  show thesis by (auto simp: set_id_def modify_def)
qed

text \<open>
  C22: a successful \<open>pull_image\<close> asks whether the image is there, pulls it exactly when its source is not
  local and the policy is to pull always, or to pull when it is missing and it is, with the
  credentials of its source, and asks once more for the identifier, which it leaves in the cell of the
  image; and it cannot succeed with a missing image that is local or never to be pulled.
\<close>

theorem pull_image_decides:
  assumes "pull_image d i default_source s = (Ok (), s')"
  shows "\<exists>b auth v w. let src = effective_source i default_source in
      (b \<longleftrightarrow> (\<exists>x. fst (b_inspect_image d (image_reference i) (world s)) = Inr x))
    \<and> (\<not> (must_exist i src \<and> \<not> b))
    \<and> (\<not> (pulls i b src \<and> resolve_auth d i src \<noteq> Ok auth))
    \<and> calls s' = calls s @ [InspectImage (image_reference i)]
       @ (if pulls i b src then [CreateImage (img_repository i) (img_tag i) auth] else [])
       @ [InspectImage (image_reference i)]
    \<and> fst (b_inspect_image d (image_reference i) w) = Inr (Some v)
    \<and> id_cells s' = (id_cells s)[img_id i := v]"
  using assms by (rule pull_image_spec) (fastforce simp: Let_def)

section \<open>From the image to the container\<close>

text \<open>
  C21: the identifier that pulling found is the one the container is made of: after a successful
  \<open>pull_image\<close>, creating a container from any composition whose image shares the cell sends one create
  request, with the image the daemon reported under the image's own name and tag.
\<close>

theorem pulled_image_used:
  assumes "pull_image d i default_source s = (Ok (), s1)"
    and "create_container_inner d c nw t = (Ok p, t')" and "id_cells t = id_cells s1"
    and "img_id (comp_image c) = img_id i" and "img_id i < length (id_cells s)"
  shows "\<exists>w body. (case fst (b_inspect_image d (image_reference i) w) of
        Inr found \<Rightarrow> found = Some (cb_image body) | Inl _ \<Rightarrow> False)
      \<and> last (calls t') = CreateContainer (container_name c) body"
proof -
  obtain v w where v: "fst (b_inspect_image d (image_reference i) w) = Inr (Some v)"
    "id_cells s1 = (id_cells s)[img_id i := v]"
    using assms(1) by (rule pull_image_spec)
  from assms(2) show ?thesis
  proof (rule create_container_inner_Ok)
    fix rs image_id
    assume "image_id = id_cells t ! img_id (comp_image c)"
      and "calls t' = calls t @ rs @ [CreateContainer (container_name c) (create_body c image_id nw)]"
    with v assms(3-5) show ?thesis
      by (intro exI [of _ w] exI [of _ "create_body c v nw"]) (simp add: create_body_def)
  qed
qed

text \<open>
  A pull that failed is not reported when the images are pulled, whatever the images and the
  daemon, but the container of an image without an identifier is never made: its creation is an error
  and sends no create request, at most the removal of a stale namesake.
\<close>

theorem unpulled_image_creates_nothing:
  assumes "img_id (comp_image c) < length (id_cells s)" and "id_cells s ! img_id (comp_image c) = []"
    and "create_container_inner d c nw s = (r, s')"
  shows "(\<nexists>err t'. pull_images d src e t = (Err err, t')) \<and> (\<exists>err. r = Err err)
    \<and> (\<exists>rs. calls s' = calls s @ rs \<and> removes_stale c rs)"
proof -
  have "pull_images d src e t \<noteq> (Err err, t')" for err t'
    by (auto simp: pull_images_def bindR_def ret_defs join_all_no_error elim!: matchR_cases)
  moreover have "(\<exists>err. r = Err err) \<and> (\<exists>rs. calls s' = calls s @ rs \<and> removes_stale c rs)"
  proof -
    obtain x t where x: "creation_prefix d c s = (x, t)" by fastforce
    show ?thesis
    proof (cases x)
      case (Ok u)
      obtain rs where "calls t = calls s @ rs" "removes_stale c rs" "id_cells t = id_cells s"
        using creation_prefix_Ok x Ok by blast
      with assms x Ok show ?thesis
        by (auto simp: create_container_inner_phases retrieved_id_def failR_def)
    next
      case (Err err)
      obtain y u where y: "remove_container_if_exists d (container_name c) s = (y, u)" by fastforce
      have "\<not> is_static c" using x Err by (auto simp: creation_prefix_def ret_defs split: if_splits)
      with y x Err have "calls t = calls s @ [InspectContainer (container_name c), RemoveContainer (container_name c) True False]"
        by (rule_tac remove_if_exists_cases [OF y]) (auto simp: creation_prefix_def ret_defs)
      with assms(3) x Err \<open>\<not> is_static c\<close> show ?thesis
        by (auto simp: create_container_inner_phases removes_stale_def)
    next
      case (Panic p)
      obtain y u where y: "remove_container_if_exists d (container_name c) s = (y, u)" by fastforce
      with x Panic have False
        by (rule_tac remove_if_exists_cases [OF y]) (auto simp: creation_prefix_def ret_defs split: if_splits)
      then show ?thesis ..
    qed
  qed
  ultimately show ?thesis by blast
qed

end
