(* ===== verification/Start_Once.thy ===== *)
theory Start_Once
  imports Teardown
begin

text \<open>
  How often, and in which order, \<open>start_containers\<close> of \<open>src/engine.rs\<close> asks the daemon to start the
  containers. The contract \<open>starting\<close> is extended by what one start asks for.
\<close>

section \<open>Counting start requests\<close>

definition asked :: "string \<Rightarrow> 'w sys \<Rightarrow> 'w sys \<Rightarrow> nat \<Rightarrow> bool" where
  "asked n s t k \<longleftrightarrow> (\<exists>rs. calls t = calls s @ rs \<and> count_list rs (StartContainer n) = k)"

lemma asked_refl: "asked n s s 0"
  by (simp add: asked_def)

lemma asked_trans: "asked n s t j \<Longrightarrow> asked n t u k \<Longrightarrow> asked n s u (j + k)"
  by (auto simp: asked_def)

lemma asked_none: "extends R s t \<Longrightarrow> \<not> R (StartContainer n) \<Longrightarrow> asked n s t 0"
  by (auto simp: asked_def extends_def list_all_iff count_list_0_iff)

definition named :: "string \<Rightarrow> pending_container \<Rightarrow> nat" where
  "named n p = (if pend_name p = n then 1 else 0)"

fun waiting :: "string \<Rightarrow> start_task \<Rightarrow> nat" where
  "waiting n (Todo p) = named n p"
| "waiting n (Finished _) = 0"
| "waiting n TaskPanicked = 0"

definition backlog :: "string \<Rightarrow> start_task list \<Rightarrow> nat" where
  "backlog n tasks = sum_list (map (waiting n) tasks)"

lemma backlog_update:
  "k < length tasks \<Longrightarrow> backlog n (tasks[k := t]) + waiting n (tasks ! k) = backlog n tasks + waiting n t"
  using member_le_sum_list [of "waiting n (tasks ! k)" "map (waiting n) tasks"]
  by (simp add: backlog_def map_update sum_list_update)

lemma backlog_done: "(\<And>p. Todo p \<notin> set tasks) \<Longrightarrow> backlog n tasks = 0"
proof -
  assume "\<And>p. Todo p \<notin> set tasks"
  then have "waiting n t = 0" if "t \<in> set tasks" for t
    using that by (cases t) auto
  then show ?thesis by (simp add: backlog_def)
qed

lemma backlog_Todo: "backlog n (map Todo ps) = sum_list (map (named n) ps)"
  by (simp add: backlog_def comp_def)

lemma backlog_split:
  "backlog n (map Todo (filter P ps)) + sum_list (map (named n) (filter (\<lambda>x. \<not> P x) ps)) = sum_list (map (named n) ps)"
  unfolding backlog_Todo by (induction ps) simp_all

text \<open>
  The bookkeeping of the strict starts: \<open>j\<close> start requests for \<open>n\<close> so far, and the tasks that are left
  behind, also by a failure, ask for no more than the rest.
\<close>

definition accounted ::
  "('w sys \<Rightarrow> bool) \<Rightarrow> string \<Rightarrow> start_task list \<Rightarrow> nat
   \<Rightarrow> (docker_test_error \<times> start_task list, operational_container list \<times> start_task list) result
   \<Rightarrow> 'w sys \<Rightarrow> nat \<Rightarrow> bool" where
  "accounted I n tasks all x s' j \<longleftrightarrow> j \<le> all \<and> (case x of
       Ok (rs, tasks') \<Rightarrow> I s' \<and> advances tasks tasks' \<and> j + backlog n tasks' = all
     | Err (e, tasks') \<Rightarrow> I s' \<and> advances tasks tasks' \<and> j + backlog n tasks' \<le> all
     | Panic _ \<Rightarrow> True)"

text \<open>Once the strict containers are up, only the relaxed ones are waited for.\<close>

lemma start_containers_joined:
  assumes "start_strict_containers d (before_strict sched)
      (map Todo (filter (\<lambda>c. pend_start_policy c = Relaxed) (pending_of kept)))
      (filter (\<lambda>c. pend_start_policy c \<noteq> Relaxed) (pending_of kept)) s = (Ok (rs, tasks), s1)"
    and "wait_for_relaxed_containers d (before_join sched) tasks s1 = (z, s2)"
    and "start_containers d sched kept s = (x, s')"
  shows "s' = s2 \<and> (\<forall>f. x = Err f \<longrightarrow> snd f = [])"
proof -
  have "start_containers d sched kept s =
      bindR (map_err (\<lambda>e. (e, [])) (wait_for_relaxed_containers d (before_join sched) tasks)) (\<lambda>relaxed_success.
      bindR static_external_containers (\<lambda>externals.
      returnR (fold place (rs @ relaxed_success @ externals) kept))) s1"
    using assms(1) by (simp add: start_containers_def Let_def)
  with assms(2,3) show ?thesis
    by (cases z)
       (auto simp: static_external_containers_def external_containers_list_def prior_running_containers_def
         map_err_def reads_def ret_defs bindR_def matchR_def)
qed

section \<open>The extended contract\<close>

locale starting_once = keeping_starts +
  fixes target :: string
  assumes asks: "p \<in> ours \<Longrightarrow> inv s \<Longrightarrow> start_container d p s = (x, s') \<Longrightarrow> asked target s s' (named target p)"
begin

lemma run_task_asked:
  assumes "inv s" and "\<And>p. Todo p \<in> set tasks \<Longrightarrow> p \<in> ours"
    and "run_task d tasks k s = (Ok tasks' :: ('e, start_task list) result, s')"
  shows "\<exists>j. asked target s s' j \<and> j + backlog target tasks' = backlog target tasks"
proof (rule run_task_cases [of k tasks d s])
  assume "run_task d tasks k s = (Ok tasks :: ('e, start_task list) result, s)"
  with assms(3) asked_refl show ?thesis by fastforce
next
  fix p x t new
  assume p: "k < length tasks" "tasks ! k = Todo p" and x: "start_container d p s = (x, t)"
    and run: "run_task d tasks k s = (Ok (tasks[k := new]) :: ('e, start_task list) result, t)"
    and new: "new = (case x of Ok r \<Rightarrow> Finished (Inr r) | Err e \<Rightarrow> Finished (Inl e) | Panic _ \<Rightarrow> TaskPanicked)"
  have "p \<in> ours" using p assms(2) by (metis nth_mem)
  then have "asked target s t (named target p)" using assms(1) x by (rule asks)
  moreover have "waiting target new = 0" by (simp add: new split: result.split)
  then have "named target p + backlog target (tasks[k := new]) = backlog target tasks"
    using backlog_update [OF p(1), of target new] p(2) by simp
  ultimately show ?thesis using assms(3) run by auto
qed

lemma run_tasks_asked:
  assumes "inv s" and "\<And>p. Todo p \<in> set tasks \<Longrightarrow> p \<in> ours"
    and "run_tasks d ks tasks s = (Ok tasks' :: ('e, start_task list) result, s')"
  shows "\<exists>j. asked target s s' j \<and> j + backlog target tasks' = backlog target tasks"
  using assms
proof (induction ks arbitrary: tasks s)
  case Nil
  then show ?case using asked_refl by (fastforce simp: ret_defs)
next
  case (Cons k ks)
  obtain t1 s1 where 1: "run_task d tasks k s = (Ok t1 :: ('e, start_task list) result, s1)" "inv s1"
    "advances tasks t1"
    using run_task_Ok [OF Cons.prems(1,2)] by blast
  have 2: "run_tasks d ks t1 s1 = (Ok tasks' :: ('e, start_task list) result, s')"
    using Cons.prems(3) 1(1) by simp
  obtain i where i: "asked target s s1 i" "i + backlog target t1 = backlog target tasks"
    using run_task_asked [OF Cons.prems(1,2) 1(1)] by blast
  obtain j where j: "asked target s1 s' j" "j + backlog target tasks' = backlog target t1"
    using Cons.IH [OF 1(2) _ 2] Cons.prems(2) advances_todo [OF 1(3)] by blast
  show ?case using asked_trans [OF i(1) j(1)] i(2) j(2) by (intro exI [of _ "i + j"]) simp
qed

lemma start_strict_asked:
  assumes "inv s" and "\<And>p. Todo p \<in> set tasks \<Longrightarrow> p \<in> ours" and "set cs \<subseteq> ours"
    and "start_strict_containers d sch tasks cs s = (x, s')"
  shows "\<exists>j. asked target s s' j
    \<and> accounted inv target tasks (backlog target tasks + sum_list (map (named target) cs)) x s' j"
  using assms
proof (induction cs arbitrary: sch tasks s x s')
  case Nil
  then show ?case using asked_refl advances_refl by (force simp: accounted_def ret_defs)
next
  case (Cons c cs)
  let ?ks = "case sch of [] \<Rightarrow> [] | ks # _ \<Rightarrow> ks"
  obtain t1 s1 where 1: "run_tasks d ?ks tasks s
      = (Ok t1 :: (docker_test_error \<times> start_task list, start_task list) result, s1)"
    "inv s1" "advances tasks t1"
    using run_tasks_Ok [OF Cons.prems(1,2)] by blast
  obtain i where i: "asked target s s1 i" "i + backlog target t1 = backlog target tasks"
    using run_tasks_asked [OF Cons.prems(1,2) 1(1)] by blast
  have c: "c \<in> ours" "set cs \<subseteq> ours" using Cons.prems(3) by auto
  obtain y s2 where y: "start_container d c s1 = (y, s2)" by fastforce
  note inv2 = keeps [OF c(1) 1(2) y]
  have todo: "p \<in> ours" if "Todo p \<in> set t1" for p
    using Cons.prems(2) advances_todo [OF 1(3) that] .
  have k: "asked target s s2 (i + named target c)"
    using i(1) asks [OF c(1) 1(2) y] by (rule asked_trans)
  show ?case
  proof (cases y)
    case (Ok r)
    obtain z s3 where z: "start_strict_containers d (tl sch) t1 cs s2 = (z, s3)" by fastforce
    obtain j where j: "asked target s2 s3 j"
      "accounted inv target t1 (backlog target t1 + sum_list (map (named target) cs)) z s3 j"
      using Cons.IH [OF inv2 _ c(2) z] todo by blast
    have "s' = s3 \<and> x = (case z of Ok (rs, tasks') \<Rightarrow> Ok (r # rs, tasks') | Err e \<Rightarrow> Err e | Panic p \<Rightarrow> Panic p)"
      using Cons.prems(4) 1(1) y Ok z by (cases z) (auto simp: map_err_def ret_defs split: prod.splits)
    with asked_trans [OF k j(1)] i(2) j(2) advances_trans [OF 1(3)] show ?thesis
      by (intro exI [of _ "i + named target c + j"]) (cases z; auto simp: accounted_def)
  next
    case (Err e)
    with Cons.prems(4) 1 y k i(2) inv2 show ?thesis
      by (intro exI [of _ "i + named target c"]) (auto simp: accounted_def map_err_def ret_defs)
  next
    case (Panic e)
    with Cons.prems(4) 1(1) y k i(2) show ?thesis
      by (intro exI [of _ "i + named target c"]) (auto simp: accounted_def map_err_def ret_defs)
  qed
qed

lemma wait_for_relaxed_asked:
  assumes "inv s" and "\<And>p. Todo p \<in> set tasks \<Longrightarrow> p \<in> ours"
    and "wait_for_relaxed_containers d ks tasks s = (x, s')"
  shows "asked target s s' (backlog target tasks)" and "inv s'"
proof -
  obtain t2 s2 where 2: "run_tasks d (ks @ [0..<length tasks]) tasks s
    = (Ok t2 :: (docker_test_error, start_task list) result, s2)" "inv s2"
    "advances tasks t2" "\<And>p. Todo p \<notin> set t2"
    using run_all_tasks [OF assms(1,2), where ks = ks] by blast
  have "backlog target t2 = 0" using 2(4) by (rule backlog_done)
  moreover have "s' = s2"
    using assms(3) 2(1) by (simp add: wait_for_relaxed_containers_def liftE_def ret_defs split: sum.splits)
  ultimately show "asked target s s' (backlog target tasks)" "inv s'"
    using run_tasks_asked [OF assms(1,2) 2(1)] 2(2) by auto
qed

lemma start_containers_asked:
  assumes "inv s" and "set (pending_of kept) \<subseteq> ours" and "start_containers d sched kept s = (x, s')"
  shows "\<exists>j. asked target s s' j \<and> j \<le> sum_list (map (named target) (pending_of kept))
    \<and> (case x of
         Ok _ \<Rightarrow> j = sum_list (map (named target) (pending_of kept))
       | Err (e, tasks) \<Rightarrow> inv s' \<and> (\<forall>p. Todo p \<in> set tasks \<longrightarrow> p \<in> ours)
           \<and> j + backlog target tasks \<le> sum_list (map (named target) (pending_of kept))
       | Panic _ \<Rightarrow> True)"
proof -
  let ?relaxed = "filter (\<lambda>c. pend_start_policy c = Relaxed) (pending_of kept)"
  let ?strict = "filter (\<lambda>c. pend_start_policy c \<noteq> Relaxed) (pending_of kept)"
  let ?all = "sum_list (map (named target) (pending_of kept))"
  have total: "backlog target (map Todo ?relaxed) + sum_list (map (named target) ?strict) = ?all"
    by (rule backlog_split)
  have ours: "Todo p \<in> set (map Todo ?relaxed) \<Longrightarrow> p \<in> ours" for p using assms(2) by auto
  have strict: "set ?strict \<subseteq> ours" using assms(2) by auto
  obtain y s1 where y: "start_strict_containers d (before_strict sched) (map Todo ?relaxed) ?strict s = (y, s1)"
    by fastforce
  obtain j where j: "asked target s s1 j" and "accounted inv target (map Todo ?relaxed) ?all y s1 j"
    using start_strict_asked [OF assms(1) ours strict y] unfolding total by blast
  then have acc: "j \<le> ?all \<and> (case y of
       Ok (rs, tasks') \<Rightarrow> inv s1 \<and> advances (map Todo ?relaxed) tasks' \<and> j + backlog target tasks' = ?all
     | Err (e, tasks') \<Rightarrow> inv s1 \<and> advances (map Todo ?relaxed) tasks' \<and> j + backlog target tasks' \<le> ?all
     | Panic _ \<Rightarrow> True)"
    by (simp add: accounted_def)
  have todo: "Todo p \<in> set tasks \<Longrightarrow> p \<in> ours" if "advances (map Todo ?relaxed) tasks" for p tasks
    using ours advances_todo [OF that] by blast
  show ?thesis
  proof (cases y)
    case (Ok r)
    obtain rs tasks where r: "r = (rs, tasks)" by fastforce
    with acc Ok have t: "inv s1" "advances (map Todo ?relaxed) tasks" "j + backlog target tasks = ?all"
      by simp_all
    obtain z s2 where z: "wait_for_relaxed_containers d (before_join sched) tasks s1 = (z, s2)" by fastforce
    note i = wait_for_relaxed_asked [OF t(1) todo [OF t(2)] z]
    have "s' = s2 \<and> (\<forall>f. x = Err f \<longrightarrow> snd f = [])"
      using start_containers_joined [OF y [unfolded Ok r] z assms(3)] .
    then show ?thesis
      using asked_trans [OF j i(1)] i(2) t(3)
      by (intro exI [of _ "j + backlog target tasks"]) (auto simp: backlog_def split: result.split)
  next
    case (Err e)
    then have "x = Err e \<and> s' = s1" using y assms(3) by (simp add: start_containers_def Let_def)
    with j acc Err todo show ?thesis by (auto split: prod.splits)
  next
    case (Panic e)
    then have "x = Panic e \<and> s' = s1" using y assms(3) by (simp add: start_containers_def Let_def)
    with j acc show ?thesis by auto
  qed
qed

end

section \<open>The code keeps it\<close>

lemma start_container_inner_calls:
  assumes "lawful_waits d" and "start_container_inner d p s = (x, s')"
  shows "\<exists>obs. calls s' = calls s @ StartContainer (pend_name p) # obs \<and> list_all observing obs"
proof -
  let ?t = "snd (issue (StartContainer (pend_name p)) (b_start_container d (pend_name p)) s)"
  have ready: "issues observing (wait_for_ready d w q)" for w q
    by (rule wait_for_trait.ready_observes [OF wait_for_ready_trait [OF assms(1)]])
  have "extends observing ?t s'"
  proof (cases "fst (b_start_container d (pend_name p) (world s))")
    case (Inl e)
    have "issues observing (start_error d e :: (_, docker_test_error, operational_container) action)"
      by (intro start_error_effects) (simp add: extends_def)
    moreover have "start_error d e ?t = (x, s')"
      using assms(2) Inl by (auto simp: start_container_inner_def matchR_def issue_def split: prod.splits)
    ultimately show ?thesis by (rule withinD)
  next
    case (Inr u)
    then have run: "(case pend_wait p of None \<Rightarrow> unwrap_none | Some w \<Rightarrow> wait_for_ready d w (p\<lparr>pend_wait := None\<rparr>)) ?t
        = (x, s')"
      using assms(2) by (auto simp: start_container_inner_def matchR_def issue_def split: prod.splits)
    have "issues observing (case pend_wait p of None \<Rightarrow> unwrap_none
        | Some w \<Rightarrow> wait_for_ready d w (p\<lparr>pend_wait := None\<rparr>))"
      unfolding unwrap_none_def by (intro issues_rules ready)
    then show ?thesis using run by (rule withinD)
  qed
  then show ?thesis by (simp add: extends_def)
qed

lemma start_container_inner_asked:
  assumes "lawful_waits d" and "start_container_inner d p s = (x, s')"
  shows "asked n s s' (named n p)"
proof -
  obtain obs where "calls s' = calls s @ StartContainer (pend_name p) # obs" "list_all observing obs"
    using start_container_inner_calls [OF assms] by blast
  moreover from this(2) have "StartContainer n \<notin> set obs" by (auto simp: list_all_iff)
  ultimately show ?thesis by (simp add: asked_def named_def count_list_0_iff)
qed

text \<open>What a start needs of the registries: a container waits in them under its own name.\<close>

definition pending_named :: "'w sys \<Rightarrow> bool" where
  "pending_named s \<longleftrightarrow>
     (\<forall>n c p. map_of (internals s) n = Some c \<longrightarrow> int_status c = IPending p \<longrightarrow> pend_name p = n)
   \<and> (\<forall>n p. map_of (dynamics s) n = Some (DPending p) \<longrightarrow> pend_name p = n)"

lemma pending_namedD:
  assumes "pending_named s"
  shows "map_of (internals s) n = Some c \<Longrightarrow> int_status c = IPending p \<Longrightarrow> pend_name p = n"
    and "map_of (dynamics s) n = Some (DPending p) \<Longrightarrow> pend_name p = n"
  using assms unfolding pending_named_def by blast+

lemma statics_ok_pending_named: "statics_ok s \<Longrightarrow> pending_named s"
  using internals_okD(2) by (fastforce simp: statics_ok_def pending_named_def dest: map_of_SomeD)

definition keeps_named :: "'w sys \<Rightarrow> 'w sys \<Rightarrow> bool" where
  "keeps_named s t \<longleftrightarrow> (pending_named s \<longrightarrow> pending_named t)"

interpretation naming: effect_order keeps_named
  by unfold_locales (simp_all add: keeps_named_def)

lemma same_keeps_named:
  "within (same internals) m \<Longrightarrow> within (same dynamics) m \<Longrightarrow> within keeps_named m"
  by (simp add: within_def same_def keeps_named_def pending_named_def)

lemma internal_start_named: "lawful_waits d \<Longrightarrow> within keeps_named (internal_start d p)"
proof
  fix s
  assume d: "lawful_waits d"
  obtain x t where i: "internal_start d p s = (x, t)" by fastforce
  have dyn: "dynamics t = dynamics s" using within_same [OF same_internal_start [OF d] i] .
  from d i have "keeps_named s t"
  proof (rule internal_start_effect)
    assume "internals t = internals s"
    with dyn show ?thesis by (simp add: keeps_named_def pending_named_def)
  next
    fix c q st
    assume "internals t = AList.map_entry (pend_name p) (\<lambda>c. c\<lparr>int_status := st\<rparr>) (internals s)"
      and "(\<exists>r. st = IOperational r q \<and> x = Ok r \<and> same_container q r)
        \<or> (\<exists>e. st = IFailed e (Some (pend_id p)) \<and> x = Err e)"
    then show ?thesis
      unfolding keeps_named_def pending_named_def dyn
      by (auto simp: map_of_map_entry split: if_splits option.splits)
  qed
  with i show "keeps_named s (snd (internal_start d p s))" by simp
qed

lemma dynamic_start_named: "lawful_waits d \<Longrightarrow> within keeps_named (dynamic_start d p)"
proof
  fix s
  assume d: "lawful_waits d"
  obtain x t where i: "dynamic_start d p s = (x, t)" by fastforce
  from d i have "keeps_named s t"
  proof (rule dynamic_start_effect)
    assume "internals t = internals s" "dynamics t = dynamics s"
    then show ?thesis by (simp add: keeps_named_def pending_named_def)
  next
    fix q st
    assume "internals t = internals s" "dynamics t = AList.update (pend_name p) st (dynamics s)"
      and "(\<exists>r. st = DRunning r q \<and> x = Ok r \<and> same_container q r) \<or> (\<exists>e. st = DFailed e \<and> x = Err e)"
    then show ?thesis
      unfolding keeps_named_def pending_named_def by (auto simp: update_conv' split: if_splits)
  qed
  with i show "keeps_named s (snd (dynamic_start d p s))" by simp
qed

lemma start_container_named:
  assumes "lawful_waits d"
  shows "within keeps_named (start_container d p)"
proof -
  have "within keeps_named (start_container_inner d q)" for q
    using same_start_container_inner [OF assms]
    by (intro same_keeps_named) (simp_all add: within_def same_def registries_def)
  then show ?thesis
    unfolding start_container_def static_start_def
    by (intro naming.rules)
       (auto intro!: naming.rules internal_start_named [OF assms] dynamic_start_named [OF assms]
          split: static_management_policy.split)
qed

text \<open>A static container is started under its own name, if at all, so it is no start of another one.\<close>

lemma internal_start_asked:
  assumes "lawful_waits d" and "pending_named s" and "pend_name p \<noteq> n"
    and "internal_start d p s = (x, s')"
  shows "asked n s s' 0"
proof (cases "\<exists>c q. map_of (internals s) (pend_name p) = Some c \<and> int_status c = IPending q")
  case True
  then obtain c q where c: "map_of (internals s) (pend_name p) = Some c" "int_status c = IPending q" by blast
  then have q: "pend_name q = pend_name p"
    by (rule pending_namedD(1) [OF assms(2)])
  obtain y t where y: "start_container_inner d q s = (y, t)" by fastforce
  have "calls s' = calls t"
    using assms(4) c y by (cases y) (auto simp: internal_start_def reads_def set_internal_status_def modify_def ret_defs
        bindR_def matchR_def)
  with start_container_inner_asked [OF assms(1) y, of n] assms(3) q show ?thesis
    by (simp add: asked_def named_def)
next
  case False
  then have "s' = s"
    using assms(4) by (auto simp: internal_start_def reads_def ret_defs split: option.splits internal_status.splits)
  then show ?thesis by (simp add: asked_refl)
qed

lemma dynamic_start_asked:
  assumes "lawful_waits d" and "pending_named s" and "pend_name p \<noteq> n"
    and "dynamic_start d p s = (x, s')"
  shows "asked n s s' 0"
proof (cases "\<exists>q. map_of (dynamics s) (pend_name p) = Some (DPending q)")
  case True
  then obtain q where c: "map_of (dynamics s) (pend_name p) = Some (DPending q)" by blast
  then have q: "pend_name q = pend_name p"
    by (rule pending_namedD(2) [OF assms(2)])
  obtain y t where y: "start_container_inner d q s = (y, t)" by fastforce
  have "calls s' = calls t"
    using assms(4) c y by (cases y) (auto simp: dynamic_start_def reads_def insert_dynamic_def modify_def ret_defs
        bindR_def matchR_def)
  with start_container_inner_asked [OF assms(1) y, of n] assms(3) q show ?thesis
    by (simp add: asked_def named_def)
next
  case False
  then have "s' = s"
    using assms(4) by (auto simp: dynamic_start_def reads_def ret_defs split: option.splits dynamic_status.splits)
  then show ?thesis by (simp add: asked_refl)
qed

lemma static_start_asked:
  assumes "lawful_waits d" and "pending_named s" and "pend_is_static p" and "pend_name p \<noteq> n"
    and "start_container d p s = (x, s')"
  shows "asked n s s' 0"
  using assms(3,5) asked_refl [of n s]
    internal_start_asked [OF assms(1,2,4)] dynamic_start_asked [OF assms(1,2,4)]
  by (auto simp: start_container_def static_start_def ret_defs
      split: option.splits static_management_policy.splits)

lemma decrement_named: "within keeps_named (decrement_completion_counters ids)"
proof
  fix s :: "'w sys"
  have "\<exists>c. map_of m n = Some c \<and> int_status c = IPending p"
    if "map_of (fst (decrement_entries ids m)) n = Some c'" "int_status c' = IPending p" for m n c' p
    using that
    by (induction ids m rule: decrement_entries.induct)
       (auto split: prod.splits option.splits if_splits)
  then show "keeps_named s (snd (decrement_completion_counters ids s))"
    by (auto simp: keeps_named_def pending_named_def decrement_completion_counters_def split: prod.split)
       (metis fst_conv)
qed

lemma teardown_named: "within keeps_named (teardown d r e failed)"
proof (rule within_teardown [OF naming.effect_order_axioms])
  fix q and f :: "'w \<Rightarrow> (b_error + unit) \<times> 'w"
  show "within keeps_named (issue q f)"
    by (intro same_keeps_named same_rules) simp_all
qed (rule decrement_named)

interpretation started_once: starting_once d pending_named
  "{p. lawful_waits d \<and> (pend_is_static p \<longrightarrow> pend_name p \<noteq> n)}" n for d :: "'w bollard" and n
proof unfold_locales
  fix p x and s s' :: "'w sys"
  assume p: "p \<in> {p. lawful_waits d \<and> (pend_is_static p \<longrightarrow> pend_name p \<noteq> n)}"
    and inv: "pending_named s" and st: "start_container d p s = (x, s')"
  show "pending_named s'"
    using withinD [OF start_container_named st] p inv by (simp add: keeps_named_def)
  show "asked n s s' (named n p)"
  proof (cases "pend_is_static p")
    case True
    with static_start_asked [OF _ inv True _ st] p show ?thesis by (auto simp: named_def)
  next
    case False
    with st p show ?thesis using start_container_inner_asked by (auto simp: start_container_def)
  qed
qed

lemma count_list_distinct: "distinct xs \<Longrightarrow> count_list xs x = (if x \<in> set xs then 1 else 0)"
  by (induction xs) auto

section \<open>The whole run\<close>

lemma asked_quiet: "issues (\<lambda>q. q \<noteq> StartContainer n) m \<Longrightarrow> m s = (x, s') \<Longrightarrow> asked n s s' 0"
  by (drule (1) withinD) (erule asked_none, simp)

abbreviation detached :: "'w bollard \<Rightarrow> string \<Rightarrow> start_task list \<Rightarrow> bool" where
  "detached d n tasks \<equiv> \<forall>p. Todo p \<in> set tasks \<longrightarrow> lawful_waits d \<and> (pend_is_static p \<longrightarrow> pend_name p \<noteq> n)"

lemma run_tasks_counted:
  assumes "pending_named s" and "detached d n tasks"
  obtains tasks' t j where "run_tasks d ks tasks s = (Ok tasks' :: (docker_test_error, _) result, t)"
    "pending_named t" "detached d n tasks'" "asked n s t j" "j + backlog n tasks' = backlog n tasks"
proof -
  obtain tasks' t where t: "run_tasks d ks tasks s = (Ok tasks' :: (docker_test_error, _) result, t)"
    "pending_named t" "advances tasks tasks'"
    using started_once.run_tasks_Ok [of s tasks d n ks] assms by blast
  obtain j where "asked n s t j" "j + backlog n tasks' = backlog n tasks"
    using t(1) started_once.run_tasks_asked [of s tasks d n ks tasks' t] assms by blast
  moreover have "detached d n tasks'" using assms(2) advances_todo [OF t(3)] by blast
  ultimately show thesis using t(1,2) that by blast
qed

lemma startup_failed_asked:
  assumes "pending_named s" and "detached d n tasks" and "startup_failed d sched tasks r e s = (x, s')"
  shows "\<exists>j \<le> backlog n tasks. asked n s s' j"
proof -
  obtain t1 s1 j1 where 1: "run_tasks d (before_startup_logs sched) tasks s = (Ok t1 :: (docker_test_error, _) result, s1)"
    "pending_named s1" "detached d n t1" "asked n s s1 j1" "j1 + backlog n t1 = backlog n tasks"
    using assms(1,2) by (rule run_tasks_counted)
  let ?k = "deb_kept (eng_phase (decommission_igniting e))"
  obtain errs s2 where 2: "handle_startup_logs d ?k [] s1 = (Ok errs :: (docker_test_error, _) result, s2)"
    using total_logs(2) by (rule totalE)
  have logs: "asked n s1 s2 0"
    by (rule asked_quiet [OF issues_mono [OF issues_logs(2)] 2]) (auto simp: log_requests_def)
  have named2: "pending_named s2"
    using within_same [OF same_logs(2) 2, of internals] within_same [OF same_logs(2) 2, of dynamics] 1(2)
    by (simp add: pending_named_def)
  obtain t3 s3 j3 where 3: "run_tasks d (before_teardown sched) t1 s2 = (Ok t3 :: (docker_test_error, _) result, s3)"
    "pending_named s3" "detached d n t3" "asked n s2 s3 j3" "j3 + backlog n t3 = backlog n t1"
    using named2 1(3) by (rule run_tasks_counted)
  obtain y s4 where 4: "teardown d r (decommission_igniting e) False s3 = (y, s4)" by fastforce
  have gone: "asked n s3 s4 0" by (rule asked_quiet [OF issues_teardown 4]) auto
  have before: "asked n s s4 (j1 + j3)"
    using asked_trans [OF asked_trans [OF asked_trans [OF 1(4) logs] 3(4)] gone] by simp
  have "pending_named s4" using withinD [OF teardown_named 4] 3(2) by (simp add: keeps_named_def)
  then obtain t5 s5 j5 where 5: "run_tasks d (after_teardown sched) t3 s4 = (Ok t5 :: (docker_test_error, _) result, s5)"
    "asked n s4 s5 j5" "j5 + backlog n t5 = backlog n t3"
    using 3(3) by (rule run_tasks_counted)
  have "s' = s4 \<or> s' = s5"
    using assms(3) 1(1) 2 3(1) 4 5(1) by (cases y) (auto simp: startup_failed_def Let_def ret_defs)
  moreover have "j1 + j3 \<le> backlog n tasks" "j1 + j3 + j5 \<le> backlog n tasks"
    using 1(5) 3(5) 5(3) by simp_all
  ultimately show ?thesis using before asked_trans [OF before 5(2)] by blast
qed

lemma orbiting_asked:
  assumes "lawful_waits d" and "pending_named s"
    and "distinct (map pend_name (pending_of (eng_phase e)))"
    and "p \<in> set (pending_of (eng_phase e))" and "\<not> pend_is_static p"
    and "orbiting d sched e s = (x, s')"
  shows "\<exists>j. asked (pend_name p) s s' j \<and> j \<le> 1 \<and> (case x of Ok _ \<Rightarrow> j = 1
      | Err (e', err, tasks) \<Rightarrow> pending_named s' \<and> j + backlog (pend_name p) tasks \<le> 1
          \<and> detached d (pend_name p) tasks
      | Panic _ \<Rightarrow> True)"
proof -
  let ?P = "set (pending_of (eng_phase e))"
  have "pend_name q \<noteq> pend_name p" if "q \<in> ?P" "pend_is_static q" for q
    using that assms(3-5) by (auto simp: distinct_map dest: inj_onD)
  then have ours: "?P \<subseteq> {q. lawful_waits d \<and> (pend_is_static q \<longrightarrow> pend_name q \<noteq> pend_name p)}"
    using assms(1) by auto
  obtain y where y: "start_containers d sched (eng_phase e) s = (y, s')"
    "x = (case y of Ok kept \<Rightarrow> Ok (e\<lparr>eng_phase := kept\<rparr>) | Err err \<Rightarrow> Err (e, err) | Panic q \<Rightarrow> Panic q)"
    using assms(6) by (auto simp: orbiting_def ret_defs elim!: matchR_cases)
  have "sum_list (map (named n) ps) = count_list (map pend_name ps) n" for n ps
    by (induction ps) (simp_all add: named_def)
  then have one: "sum_list (map (named (pend_name p)) (pending_of (eng_phase e))) = 1"
    using assms(3,4) by (simp add: count_list_distinct)
  show ?thesis
    using started_once.start_containers_asked [OF assms(2) ours y(1), unfolded one] y(2)
    by (cases y) auto
qed

lemma run_orbit_quiet:
  assumes "\<And>e. issues (\<lambda>q. q \<noteq> StartContainer n) (test e)"
  shows "issues (\<lambda>q. q \<noteq> StartContainer n) (run_orbit d r test e)"
proof -
  have t: "issues (\<lambda>q. q \<noteq> StartContainer n) (teardown d r e failed)" for e failed
    by (rule issues_teardown) auto
  have i: "issues (\<lambda>q. q \<noteq> StartContainer n) (inspect d nw e)" for nw e
    by (rule issues_mono [OF inspect_frames(1)]) auto
  have l: "issues (\<lambda>q. q \<noteq> StartContainer n) (handle_logs d failed cs errors)" for failed cs errors
    by (rule issues_mono [OF issues_logs(1)]) (auto simp: log_requests_def)
  have "issues (\<lambda>q. q \<noteq> StartContainer n) (run_body d r test e)" for e
    unfolding run_body_def Let_def
    by (intro issues_rules t l issues_spawn_body assms) (auto intro!: issues_rules split: body_outcome.split)
  then show ?thesis
    unfolding run_orbit_def fail_with_last_def by (intro issues_rules t i)
qed

section \<open>The strict containers\<close>

lemma run_tasks_none: "run_tasks d ks [] s = (Ok [], s)"
  by (induction ks) (simp_all add: run_task_def returnR_def bindR_def matchR_def)

text \<open>
  One start: the request, accepted, and then the container's own readiness condition awaited to its
  end; or the way in which it fails.
\<close>

definition after_start :: "'w bollard \<Rightarrow> pending_container \<Rightarrow> 'w sys \<Rightarrow> 'w sys" where
  "after_start d c s = s\<lparr>world := snd (b_start_container d (pend_name c) (world s)),
     calls := calls s @ [StartContainer (pend_name c)]\<rparr>"

definition became_ready ::
  "'w bollard \<Rightarrow> pending_container \<Rightarrow> 'w sys \<Rightarrow> operational_container \<Rightarrow> 'w sys \<Rightarrow> bool" where
  "became_ready d c s r t \<longleftrightarrow> (\<exists>u. fst (b_start_container d (pend_name c) (world s)) = Inr u)
     \<and> (\<exists>w. pend_wait c = Some w \<and> wait_for_ready d w (c\<lparr>pend_wait := None\<rparr>) (after_start d c s) = (Ok r, t))"

definition failed_to_start ::
  "'w bollard \<Rightarrow> pending_container \<Rightarrow> 'w sys \<Rightarrow> docker_test_error \<Rightarrow> 'w sys \<Rightarrow> bool" where
  "failed_to_start d c s e t \<longleftrightarrow> (case fst (b_start_container d (pend_name c) (world s)) of
     Inl err \<Rightarrow> start_error d err (after_start d c s) = (Err e :: (docker_test_error, unit) result, t)
   | Inr _ \<Rightarrow> \<exists>w. pend_wait c = Some w
       \<and> wait_for_ready d w (c\<lparr>pend_wait := None\<rparr>) (after_start d c s) = (Err e, t))"

inductive started_in_order ::
  "'w bollard \<Rightarrow> pending_container list \<Rightarrow> 'w sys \<Rightarrow> operational_container list \<Rightarrow> 'w sys \<Rightarrow> bool" for d where
  nothing: "started_in_order d [] s [] s"
| one_more: "became_ready d c s r t \<Longrightarrow> started_in_order d cs t rs u \<Longrightarrow> started_in_order d (c # cs) s (r # rs) u"

lemma start_container_inner_ready:
  "start_container_inner d c s = (Ok r, t) \<Longrightarrow> became_ready d c s r t"
  by (cases "fst (b_start_container d (pend_name c) (world s))"; cases "b_start_container d (pend_name c) (world s)")
     (auto simp: start_container_inner_def became_ready_def after_start_def matchR_def issue_def start_error_def
        ret_defs unwrap_none_def split: option.splits b_error.splits if_splits sum.splits)

lemma start_container_inner_fails:
  "start_container_inner d c s = (Err e, t) \<Longrightarrow> failed_to_start d c s e t"
  by (cases "fst (b_start_container d (pend_name c) (world s))"; cases "b_start_container d (pend_name c) (world s)")
     (auto simp: start_container_inner_def failed_to_start_def after_start_def matchR_def issue_def start_error_def
        ret_defs unwrap_none_def split: option.splits b_error.splits if_splits sum.splits)

definition start_and_wait :: "pending_container \<Rightarrow> request list \<Rightarrow> request list" where
  "start_and_wait c obs = StartContainer (pend_name c) # obs"

lemma strict_step:
  assumes "start_container_inner d c s = (y, s1)" and "\<not> pend_is_static c"
    and "start_strict_containers d sch [] (c # cs) s = (x, s')"
  shows "case y of
      Ok r \<Rightarrow> (\<exists>z. start_strict_containers d (tl sch) [] cs s1 = (z, s')
        \<and> x = (case z of Ok (rs, tasks) \<Rightarrow> Ok (r # rs, tasks) | Err e \<Rightarrow> Err e | Panic p \<Rightarrow> Panic p))
    | Err e \<Rightarrow> x = Err (e, []) \<and> s' = s1
    | Panic p \<Rightarrow> x = Panic p \<and> s' = s1"
proof -
  have run: "bindR (map_err (\<lambda>e. (e, [])) (start_container d c)) (\<lambda>r. bindR (start_strict_containers d (tl sch) [] cs)
      (\<lambda>(running, tasks). returnR (r # running, tasks))) s = (x, s')"
    using assms(3) by (simp add: run_tasks_none)
  have "start_container d c s = (y, s1)"
    using assms(1,2) by (simp add: start_container_def)
  then have start: "map_err (\<lambda>e. (e, [] :: start_task list)) (start_container d c) s
      = (case y of Ok r \<Rightarrow> Ok r | Err e \<Rightarrow> Err (e, []) | Panic p \<Rightarrow> Panic p, s1)"
    by (cases y) (simp_all add: map_err_def ret_defs)
  obtain z s2 where z: "start_strict_containers d (tl sch) [] cs s1 = (z, s2)" by fastforce
  show ?thesis
    using run start z by (cases y; cases z) (auto simp: ret_defs split: prod.splits)
qed

lemma start_strict_trace:
  assumes "lawful_waits d" and "\<And>c. c \<in> set cs \<Longrightarrow> \<not> pend_is_static c"
    and "start_strict_containers d sch [] cs s = (x, s')"
  shows "\<exists>ready rest rs t waits. cs = ready @ rest \<and> started_in_order d ready s rs t
    \<and> list_all2 same_container ready rs
    \<and> (case x of
         Ok (rs', tasks) \<Rightarrow> rest = [] \<and> rs' = rs \<and> tasks = [] \<and> s' = t
       | Err (e, tasks) \<Rightarrow> tasks = [] \<and> (\<exists>c later. rest = c # later \<and> failed_to_start d c t e s')
       | Panic p \<Rightarrow> \<exists>c later. rest = c # later \<and> start_container_inner d c t = (Panic p, s'))
    \<and> calls s' = calls s @ concat (map2 start_and_wait cs waits) \<and> list_all (list_all observing) waits
    \<and> length waits = length ready + (if rest = [] then 0 else 1)"
  (is "\<exists>ready rest rs t waits. ?run cs s x s' ready rest rs t waits")
  using assms(2,3)
proof (induction cs arbitrary: sch s x)
  case Nil
  then have "?run [] s x s' [] [] [] s []" by (auto simp: ret_defs intro: started_in_order.nothing)
  then show ?case by blast
next
  case (Cons c cs)
  obtain y s1 where y: "start_container_inner d c s = (y, s1)" by fastforce
  obtain obs where obs: "calls s1 = calls s @ StartContainer (pend_name c) # obs" "list_all observing obs"
    using start_container_inner_calls [OF assms(1) y] by blast
  have "\<not> pend_is_static c" using Cons.prems(1) by simp
  note step = strict_step [OF y this Cons.prems(2)]
  show ?case
  proof (cases y)
    case (Ok r)
    then obtain z where z: "start_strict_containers d (tl sch) [] cs s1 = (z, s')"
      and x: "x = (case z of Ok (rs, tasks) \<Rightarrow> Ok (r # rs, tasks) | Err e \<Rightarrow> Err e | Panic p \<Rightarrow> Panic p)"
      using step by auto
    obtain ready rest rs t waits where w: "?run cs s1 z s' ready rest rs t waits"
      using Cons.IH [OF _ z] Cons.prems(1) by auto
    have "became_ready d c s r s1" using y Ok start_container_inner_ready by blast
    moreover have "same_container c r" using y Ok start_container_inner_Ok [OF assms(1)] by blast
    ultimately have "?run (c # cs) s x s' (c # ready) rest (r # rs) t (obs # waits)"
      using w obs x by (cases z) (auto simp: start_and_wait_def intro: started_in_order.one_more)
    then show ?thesis by blast
  next
    case (Err e)
    then have "?run (c # cs) s x s' [] (c # cs) [] s [obs]"
      using step y obs start_container_inner_fails
      by (auto simp: start_and_wait_def intro: started_in_order.nothing)
    then show ?thesis by blast
  next
    case (Panic p)
    then have "?run (c # cs) s x s' [] (c # cs) [] s [obs]"
      using step y obs by (auto simp: start_and_wait_def intro: started_in_order.nothing)
    then show ?thesis by blast
  qed
qed

section \<open>Properties\<close>

text \<open>
  C5: no container of the test's own is started twice in a whole run, whatever the schedule of the
  spawned tasks, however the run ends, and also when a failed strict start leaves relaxed ones running
  into the teardown; and when the start phase succeeds, each one was started, exactly once.
\<close>

theorem started_exactly_once:
  assumes "lawful_waits d" and "statics_ok s"
    and "ignite d (r_network r) (dt_network (r_config r)) e0 s = (Ok e, s1)"
    and "distinct (map pend_name (pending_of (eng_phase e)))"
    and "p \<in> set (pending_of (eng_phase e))" and "\<not> pend_is_static p"
    and "\<And>e. issues (\<lambda>q. q \<noteq> StartContainer (pend_name p)) (test e)"
    and "run_containers d sched r test e0 s = (y, s')"
  shows "\<exists>rs. calls s' = calls s1 @ rs \<and> count_list rs (StartContainer (pend_name p)) \<le> 1
    \<and> (case orbiting d sched e s1 of
         (Ok _, _) \<Rightarrow> count_list rs (StartContainer (pend_name p)) = 1
       | _ \<Rightarrow> True)"
proof -
  let ?n = "pend_name p"
  have named: "pending_named s1"
    using ignite_registers [OF assms(2,3)] statics_ok_pending_named by blast
  obtain z s2 where z: "orbiting d sched e s1 = (z, s2)" by fastforce
  obtain j where j: "asked ?n s1 s2 j" "j \<le> 1" and
    rest: "case z of Ok _ \<Rightarrow> j = 1
      | Err (e', err, tasks) \<Rightarrow> pending_named s2 \<and> j + backlog ?n tasks \<le> 1 \<and> detached d ?n tasks
      | Panic _ \<Rightarrow> True"
    using orbiting_asked [OF assms(1) named assms(4-6) z] by blast
  show ?thesis
  proof (cases z)
    case (Ok e')
    then have "run_orbit d r test e' s2 = (y, s')"
      using assms(3,8) z by (simp add: run_containers_def)
    with asked_quiet [OF run_orbit_quiet [where test = test, OF assms(7)]] have "asked ?n s2 s' 0" by blast
    with asked_trans [OF j(1)] have "asked ?n s1 s' j" by fastforce
    then show ?thesis using j(2) rest z Ok by (auto simp: asked_def)
  next
    case (Err x)
    then obtain e' err tasks where x: "z = Err (e', err, tasks)" by (cases x) auto
    obtain w s3 where w: "startup_failed d sched tasks r e' s2 = (w, s3)" by fastforce
    have "s' = s3" using assms(3,8) z x w by (cases w) (auto simp: run_containers_def ret_defs)
    moreover obtain i where "i \<le> backlog ?n tasks" "asked ?n s2 s3 i"
      using startup_failed_asked [OF _ _ w] rest x by auto
    ultimately show ?thesis
      using asked_trans [OF j(1)] rest z x by (fastforce simp: asked_def)
  next
    case (Panic q)
    then have "s' = s2" using assms(3,8) z by (simp add: run_containers_def)
    with j z Panic show ?thesis by (auto simp: asked_def)
  qed
qed

text \<open>
  C27: strict containers are started one at a time in the order of the compositions. Those before the
  first failure have each been started, with the request accepted and its own readiness condition
  awaited to a positive end, before the next request is sent, and what lies between two requests is
  only what that condition observes; the first failure, of a request or of a readiness condition, is
  the error of the whole, ends the sequence, and nothing after it is asked for; and without a failure
  every container has its running form, in order.
\<close>

theorem strict_in_order:
  assumes "lawful_waits d" and "\<And>c. c \<in> set cs \<Longrightarrow> \<not> pend_is_static c"
    and "start_strict_containers d sch [] cs s = (x, s')"
  shows "\<exists>ready rest rs t waits. cs = ready @ rest \<and> started_in_order d ready s rs t
    \<and> list_all2 same_container ready rs
    \<and> (case x of
         Ok (rs', tasks) \<Rightarrow> rest = [] \<and> rs' = rs \<and> tasks = [] \<and> s' = t
       | Err (e, tasks) \<Rightarrow> tasks = [] \<and> (\<exists>c later. rest = c # later \<and> failed_to_start d c t e s')
       | Panic p \<Rightarrow> \<exists>c later. rest = c # later \<and> start_container_inner d c t = (Panic p, s'))
    \<and> calls s' = calls s @ concat (map2 start_and_wait cs waits) \<and> list_all (list_all observing) waits
    \<and> length waits = length ready + (if rest = [] then 0 else 1)"
  using assms by (rule start_strict_trace)

end
