(* ===== verification/Sharing.thy ===== *)
theory Sharing
  imports Static_Containers
begin

text \<open>
  The lifetime of a shared container, \<open>src/static_container/internal.rs\<close>: how often it is created, the
  exact arithmetic of its counter within \<open>u8\<close>, the loop that releases it against its specification, and
  what a failed start leaves behind.
\<close>

section \<open>Creation\<close>

text \<open>
  C16: over any interleaving of the calls of concurrent tests, none of which panics, a shared container
  is created at most once as long as nobody cleans it up, and not at all while it is registered, also
  when its creation failed.
\<close>

theorem shared_created_once:
  assumes "registry_run (\<lambda>(c, nw, mode). internal_create d c nw mode) internal_present creates s u"
  shows "created_count (creates n) u
    \<le> created_count (creates n) s + (if internal_present s n then 0 else 1)"
  using assms by (rule shared.at_most_once)

section \<open>The counter\<close>

lemma internal_create_registered:
  assumes "internal_create d c nw mode s = (r, s')"
    and "map_of (internals s) (container_name c) = Some ic" and "int_status ic \<noteq> ICleaned"
  shows "internals s' = internals s \<and> (\<forall>p. r \<noteq> Ok p)
    \<or> completion_counter ic \<noteq> 255 \<and> internals s' = AList.update (container_name c) (bump ic) (internals s)
      \<and> (\<forall>p. r = Ok p \<longrightarrow> shared_pending (int_status ic) = Some p)"
  using internal_create_effect [OF assms(1)] assms(2,3)
  by (auto simp: vacant_def elim!: create_effectE)

text \<open>
  C29: asking for a registered shared container counts the asking test exactly, by one, and only if the
  counter has room: the test that would be the 256th gets no container, and whenever no container is
  handed out to it the registry is unchanged, unless the container had failed, which counts it too.
\<close>

theorem counter_exact:
  assumes "internal_create d c nw mode s = (r, s')"
    and "map_of (internals s) (container_name c) = Some ic" and "int_status ic \<noteq> ICleaned"
  shows "case r of
      Ok p \<Rightarrow> unat (completion_counter ic) < 255 \<and> shared_pending (int_status ic) = Some p
        \<and> count_of (internals s') (container_name c) = Suc (unat (completion_counter ic))
    | _ \<Rightarrow> internals s' = internals s
        \<or> shared_pending (int_status ic) = None
          \<and> count_of (internals s') (container_name c) = Suc (unat (completion_counter ic))"
proof -
  have room: "w \<noteq> 255 \<Longrightarrow> unat w < 255 \<and> unat (w + 1) = Suc (unat w)" for w :: "8 word"
  proof -
    assume "w \<noteq> 255"
    then have "unat w \<noteq> unat (255 :: 8 word)" by (simp add: word_unat_eq_iff)
    moreover have "unat w < 256" using unsigned_less [of w] by simp
    ultimately show ?thesis using counter_step(2) [OF \<open>w \<noteq> 255\<close>] by simp
  qed
  have eff: "create_effect (container_name c) (static_management_policy_of c) (internals s) r (internals s')"
    using assms(1) by (rule internal_create_effect)
  then show ?thesis
  proof cases
    case refused
    then show ?thesis by (cases r) auto
  next
    case (joined c' p)
    with assms(2) room [of "completion_counter ic"] show ?thesis by (simp add: count_of_def bump_def)
  next
    case (joined_failed c' e i)
    with assms(2) room [of "completion_counter ic"] show ?thesis by (simp add: count_of_def bump_def)
  qed (use assms(2,3) in \<open>auto simp: vacant_def\<close>)
qed

text \<open>
  C24: the loop over the counters is its specification: on a well-formed registry it never overflows,
  each container with one of the given identifiers loses one user, the ones whose last user this was
  are marked as cleaned and handed out for removal, in the order of the registry, the
  others are untouched, and the registry stays well formed.
\<close>

theorem decrement_releases:
  assumes "internals_ok (internals s)"
  shows "decrement_completion_counters ids s =
      (Ok (last_released ids (internals s)) :: ('e, _) result,
       s\<lparr>internals := map (\<lambda>(n, c). (n, release_one ids c)) (internals s)\<rparr>)
    \<and> internals_ok (map (\<lambda>(n, c). (n, release_one ids c)) (internals s))
    \<and> set (last_released ids (internals s)) \<subseteq> set ids"
proof -
  have "set (last_released ids m) \<subseteq> set ids" for m
    by (induction m) (auto simp: last_released_def released_def map_filter_simps split: option.splits if_splits)
  then show ?thesis
    using decrement_completion_counters_ok [OF assms] release_ok [OF assms] by simp
qed

section \<open>What is left behind\<close>

text \<open>
  C40: a shared container whose start failed is not always removed: once another test has asked for it
  in between, and got the error, the release by the test that had created it does not hand it out,
  although no other test holds it or will ever release it.
\<close>

theorem failed_start_not_released:
  assumes "internals_ok (internals s)"
    and "map_of (internals s) (container_name c)
      = Some \<lparr>int_status = IFailed e (Some cid), completion_counter = 1\<rparr>"
    and "\<And>n x. map_of (internals s) n = Some x \<Longrightarrow> container_id (int_status x) = Some cid \<Longrightarrow> n = container_name c"
    and "internal_create d c nw mode s = (r, s1)"
    and "decrement_completion_counters [cid] s1 = (Ok rs :: ('e, _) result, s2)"
  shows "r = Err e \<and> cid \<notin> set rs
    \<and> map_of (internals s2) (container_name c)
      = Some \<lparr>int_status = IFailed e (Some cid), completion_counter = 1\<rparr>"
proof -
  let ?n = "container_name c"
  have s1: "r = Err e" "internals s1 = AList.update ?n
      \<lparr>int_status = IFailed e (Some cid), completion_counter = 2\<rparr> (internals s)"
    using assms(2,4)
    by (auto simp: internal_create_def create_internal_container_inner_def reads_def increment_completion_eq
        ret_defs bindR_def matchR_def bump_def split: if_splits)
  have ok: "internals_ok (internals s1)"
    using create_effect_ok [OF internal_create_effect [OF assms(4)] assms(1)] .
  have rs: "rs = last_released [cid] (internals s1)"
    "internals s2 = map (\<lambda>(n, c). (n, release_one [cid] c)) (internals s1)"
    using assms(5) by (auto simp: decrement_completion_counters_ok [OF ok])
  have "cid \<notin> set rs"
  proof
    assume "cid \<in> set rs"
    then obtain n x where x: "(n, x) \<in> set (internals s1)" "container_id (int_status x) = Some cid"
      "completion_counter x = 1"
      unfolding rs(1) last_released_def List.map_filter_def by (auto split: if_splits)
    then have "map_of (internals s1) n = Some x"
      using internals_ok_distinct [OF ok] by simp
    with s1(2) x assms(3) [of n x] show False by (auto split: if_splits)
  qed
  moreover have "map_of (internals s2) ?n
      = Some \<lparr>int_status = IFailed e (Some cid), completion_counter = 1\<rparr>"
    unfolding rs(2) map_of_release s1(2) by (simp add: release_one_def released_def)
  ultimately show ?thesis using s1(1) by simp
qed

text \<open>
  The registry of the dynamic containers compares names with identifiers, so a cleanup by identifiers
  that are no names disconnects none of them.
\<close>

lemma dynamic_not_disconnected:
  assumes "set ids \<inter> fst ` set (dynamics s) = {}"
  shows "dynamic_disconnect d nw mode ids s = (Ok (), s)"
proof -
  have "set ns \<inter> set ids = {} \<Longrightarrow>
      forR ns (\<lambda>i. if i \<in> set ids then disconnect_container d i nw else returnR ()) s = (Ok (), s)" for ns
    by (induction ns) (simp_all add: returnR_def bindR_def matchR_def)
  from this [of "map fst (dynamics s)"] assms show ?thesis
    by (simp add: dynamic_disconnect_def reads_def returnR_def Int_commute split: network.split)
qed

text \<open>
  The cleanup disconnects a running shared container from the network of the test whatever the
  network mode, which it is not even told, so also from the network that the tests of a namespace
  share, while the counter says that other users remain and the container is not removed.
\<close>

theorem disconnected_while_used:
  assumes "internals_ok (internals s)" and "map_of (internals s) n = Some c"
    and "int_status c = IOperational r p" and "pend_id p \<in> set ids" and "oper_id r \<in> set ids"
    and "1 < unat (completion_counter c)" and "internal_cleanup d nw ids s = (x, s')"
  shows "DisconnectNetwork nw (oper_id r) True \<in> set (calls s')
    \<and> count_of (internals s') n = unat (completion_counter c) - 1
    \<and> map_of (internals s') n = Some (c\<lparr>completion_counter := completion_counter c - 1\<rparr>)"
proof -
  have "oper_id r \<in> set (running_internals ids (internals s))"
    using map_of_SomeD [OF assms(2)] assms(3,5) unfolding running_internals_def
    by (force intro: map_filter_mem)
  moreover have "completion_counter c \<noteq> 1" "completion_counter c \<noteq> 0" using assms(6) by auto
  then have m: "map_of (internals s') n = Some (c\<lparr>completion_counter := completion_counter c - 1\<rparr>)"
    using internal_cleanup_effect [OF assms(1,7)] map_of_release [of ids "internals s" n] assms(2-4)
    by simp (simp add: release_one_def released_def)
  moreover from m have "count_of (internals s') n = unat (completion_counter c) - 1"
    using \<open>completion_counter c \<noteq> 0\<close> by (simp add: count_of_def unat_minus_one)
  ultimately show ?thesis
    using internal_cleanup_effect [OF assms(1,7)] by auto
qed

end
