(* ===== verification/Logs.thy ===== *)
theory Logs
  imports Lifecycle
begin

text \<open>
  Which logs are forwarded before the cleanup, and what of them: \<open>handle_log\<close> of
  \<open>src/container/cleanup.rs\<close> and the two loops over the containers in \<open>src/engine.rs\<close>.
\<close>

section \<open>One container\<close>

definition wants_stderr :: "log_source \<Rightarrow> bool" where
  "wants_stderr src \<longleftrightarrow> src \<noteq> StdOut"

definition wants_stdout :: "log_source \<Rightarrow> bool" where
  "wants_stdout src \<longleftrightarrow> src \<noteq> StdErr"

definition selection :: "log_source \<Rightarrow> container_log_source" where
  "selection src = \<lparr>log_stderr = wants_stderr src, log_stdout = wants_stdout src, log_follow = False\<rparr>"

text \<open>The entry that is forwarded: the first one of the selected sources, if it comes within five seconds.\<close>

definition forwarded :: "'w bollard \<Rightarrow> string \<Rightarrow> log_source \<Rightarrow> 'w \<Rightarrow> log_entry option" where
  "forwarded d n src w =
     (case List.map_filter (\<lambda>(t, chunk). map_option (Pair t) (log_chunk d (selection src) chunk))
             (ls_items (fst (b_logs d n True (wants_stderr src) (wants_stdout src) w))) of
        (t, Inr entry) # _ \<Rightarrow> if t \<le> 5000 then Some entry else None
      | _ \<Rightarrow> None)"

fun sink_of :: "string \<Rightarrow> log_action \<Rightarrow> log_entry \<Rightarrow> log_sink" where
  "sink_of n Forward e = (case le_source e of Stdout \<Rightarrow> SinkStdout | Stderr \<Rightarrow> SinkStderr)"
| "sink_of n ForwardToStdErr e = SinkStderr"
| "sink_of n ForwardToStdOut e = SinkStdout"
| "sink_of n (ForwardToFile path) e = SinkFile (path @ ''/'' @ n)"

fun file_of :: "string \<Rightarrow> log_action \<Rightarrow> string option" where
  "file_of n (ForwardToFile path) = Some (path @ ''/'' @ n)"
| "file_of n _ = None"

lemma handle_log_line_calls:
  "calls (snd (handle_log_line d action e (file_of n action) s))
     = calls s @ [WriteLog (sink_of n action e) (le_message e)]"
  by (cases action) (auto simp: write_to_def map_err_issue split: message_source.split sum.split)

text \<open>The log of a container as opened, and the state after that.\<close>

definition opened_log :: "'w bollard \<Rightarrow> string \<Rightarrow> log_source \<Rightarrow> 'w \<Rightarrow> entry_stream" where
  "opened_log d n src w =
     (let stream = fst (b_logs d n True (wants_stderr src) (wants_stdout src) w) in
      \<lparr>es_items = List.map_filter (\<lambda>(t, chunk). map_option (Pair t) (log_chunk d (selection src) chunk))
         (ls_items stream),
       es_closed = ls_closed stream\<rparr>)"

definition after_opening :: "'w bollard \<Rightarrow> string \<Rightarrow> log_source \<Rightarrow> 'w sys \<Rightarrow> 'w sys" where
  "after_opening d n src s =
     s\<lparr>world := snd (b_logs d n True (wants_stderr src) (wants_stdout src) (world s)),
       calls := calls s @ [ContainerLogs n True (wants_stderr src) (wants_stdout src)]\<rparr>"

lemma open_log:
  "container_logs d n \<lparr>log_stderr = (case src of StdErr \<Rightarrow> True | StdOut \<Rightarrow> False | Both \<Rightarrow> True),
      log_stdout = (case src of StdErr \<Rightarrow> False | StdOut \<Rightarrow> True | Both \<Rightarrow> True), log_follow = False\<rparr> s
   = (Ok (opened_log d n src (world s)) :: ('e, _) result, after_opening d n src s)"
  by (cases src)
     (simp_all add: container_logs_def issue_stream_def action_defs selection_def wants_stderr_def wants_stdout_def
        opened_log_def after_opening_def split: prod.split)

text \<open>What a forwarding asks for: of the opened log, and with the file in front of it.\<close>

definition log_relay :: "'w bollard \<Rightarrow> string \<Rightarrow> log_action \<Rightarrow> log_source \<Rightarrow> 'w \<Rightarrow> request list" where
  "log_relay d n action src w = ContainerLogs n True (wants_stderr src) (wants_stdout src)
     # (case forwarded d n src w of Some e \<Rightarrow> [WriteLog (sink_of n action e) (le_message e)] | None \<Rightarrow> [])"

definition forwarding :: "'w bollard \<Rightarrow> string \<Rightarrow> log_action \<Rightarrow> log_source \<Rightarrow> 'w \<Rightarrow> request list" where
  "forwarding d n action src w =
     (case file_of n action of
        Some f \<Rightarrow> CreateFile f #
          (case create_file d f w of (Inr _, w') \<Rightarrow> log_relay d n action src w' | (Inl _, _) \<Rightarrow> [])
      | None \<Rightarrow> log_relay d n action src w)"

definition relay :: "'w bollard \<Rightarrow> cleanup_container \<Rightarrow> log_action \<Rightarrow> log_source \<Rightarrow> string option
    \<Rightarrow> ('w sys, docker_test_error, unit) action" where
  "relay d c action src file = bindR (container_logs d (clean_name c)
        \<lparr>log_stderr = (case src of StdErr \<Rightarrow> True | StdOut \<Rightarrow> False | Both \<Rightarrow> True),
         log_stdout = (case src of StdErr \<Rightarrow> False | StdOut \<Rightarrow> True | Both \<Rightarrow> True), log_follow = False\<rparr>)
     (\<lambda>stream. case next_within 5000 stream of
         Data (Inr line) \<Rightarrow> handle_log_line d action line file
       | Data (Inl e) \<Rightarrow> failR (LogWriteError (''unable to read docker log: '' @ display_error e))
       | Closed \<Rightarrow> returnR ()
       | Waited \<Rightarrow> returnR ())"

lemma relay_calls:
  "calls (snd (relay d c action src (file_of (clean_name c) action) s))
     = calls s @ log_relay d (clean_name c) action src (world s)"
proof -
  let ?n = "clean_name c"
  have "calls (snd ((case next_within 5000 (opened_log d ?n src w) of
         Data (Inr line) \<Rightarrow> handle_log_line d action line (file_of ?n action)
       | Data (Inl e) \<Rightarrow> failR (LogWriteError (''unable to read docker log: '' @ display_error e))
       | Closed \<Rightarrow> returnR ()
       | Waited \<Rightarrow> returnR ()) t)) = calls t @
     (case forwarded d ?n src w of Some e \<Rightarrow> [WriteLog (sink_of ?n action e) (le_message e)] | None \<Rightarrow> [])" for t w
    by (cases "b_logs d ?n True (wants_stderr src) (wants_stdout src) w")
       (auto simp: opened_log_def next_within_def forwarded_def handle_log_line_calls ret_defs
         split: list.split sum.split option.split)
  then show ?thesis
    by (simp add: relay_def bindR_eq(1) [OF open_log] log_relay_def after_opening_def)
qed

lemma handle_log_cases:
  "handle_log d c action src s = (case file_of (clean_name c) action of
     None \<Rightarrow> relay d c action src None s
   | Some f \<Rightarrow> (case create_file d f (world s) of
       (Inl e, w) \<Rightarrow> (Err (LogWriteError (''unable to create log file: '' @ e)), s\<lparr>world := w, calls := calls s @ [CreateFile f]\<rparr>)
     | (Inr _, w) \<Rightarrow> relay d c action src (Some f) (s\<lparr>world := w, calls := calls s @ [CreateFile f]\<rparr>)))"
proof (cases action)
  case (ForwardToFile path)
  let ?f = "path @ ''/'' @ clean_name c"
  obtain r w where w: "create_file d ?f (world s) = (r, w)" by fastforce
  show ?thesis
    using ForwardToFile w
    by (cases r) (simp_all add: handle_log_def relay_def [abs_def] Let_def bindR_def matchR_def map_err_def issue_def ret_defs)
qed (simp_all add: handle_log_def relay_def [abs_def] returnR_def bindR_def matchR_def)

lemma handle_log_effect:
  "calls (snd (handle_log d c action src s)) = calls s @ forwarding d (clean_name c) action src (world s)"
proof (cases "file_of (clean_name c) action")
  case None
  with relay_calls [of d c action src s] show ?thesis
    by (simp add: handle_log_cases forwarding_def)
next
  case (Some f)
  obtain r w where w: "create_file d f (world s) = (r, w)" by fastforce
  show ?thesis
  proof (cases r)
    case (Inl e)
    with Some w show ?thesis by (simp add: handle_log_cases forwarding_def)
  next
    case (Inr u)
    with Some w relay_calls [of d c action src "s\<lparr>world := w, calls := calls s @ [CreateFile f]\<rparr>"]
    show ?thesis by (simp add: handle_log_cases forwarding_def)
  qed
qed

text \<open>
  C37: what forwarding a container's log asks for: it creates the log file, when one is asked for, and
  when that fails nothing is read and the error is returned; otherwise it reads the log once, following
  it, and then writes at most one entry: the first one from the selected sources, if it arrives within
  five seconds, to the sink of the action. The rest of the log is not forwarded.
\<close>

theorem log_forwarding:
  "let n = clean_name c;
       relayed = (\<lambda>w. ContainerLogs n True (wants_stderr src) (wants_stdout src)
         # (case forwarded d n src w of
              Some e \<Rightarrow> [WriteLog (sink_of n action e) (le_message e)] | None \<Rightarrow> []))
   in case file_of n action of
        None \<Rightarrow> calls (snd (handle_log d c action src s)) = calls s @ relayed (world s)
      | Some f \<Rightarrow> (case create_file d f (world s) of
          (Inl e, _) \<Rightarrow> calls (snd (handle_log d c action src s)) = calls s @ [CreateFile f]
            \<and> fst (handle_log d c action src s) = Err (LogWriteError (''unable to create log file: '' @ e))
        | (Inr _, w) \<Rightarrow> calls (snd (handle_log d c action src s)) = calls s @ [CreateFile f] @ relayed w)"
  using handle_log_effect [of d c action src s]
  by (auto simp: Let_def handle_log_cases forwarding_def log_relay_def split: option.splits prod.splits sum.splits)

section \<open>Which containers\<close>

definition logged_after :: "bool \<Rightarrow> cleanup_container \<Rightarrow> bool" where
  "logged_after test_failed c \<longleftrightarrow> (case clean_log_options c of
     Some l \<Rightarrow> lo_policy l = AlwaysLog \<or> lo_policy l = OnError \<and> test_failed
   | None \<Rightarrow> False)"

text \<open>The log of a container is forwarded as its options say, in some state of the daemon.\<close>

definition log_forwarded :: "'w bollard \<Rightarrow> cleanup_container \<Rightarrow> request list \<Rightarrow> bool" where
  "log_forwarded d c part \<longleftrightarrow> (\<exists>l w. clean_log_options c = Some l
     \<and> part = forwarding d (clean_name c) (lo_action l) (lo_source l) w)"

definition logs_forwarded :: "'w bollard \<Rightarrow> cleanup_container list \<Rightarrow> 'w sys \<Rightarrow> 'w sys \<Rightarrow> bool" where
  "logs_forwarded d cs s t \<longleftrightarrow> (\<exists>parts. list_all2 (log_forwarded d) cs parts \<and> calls t = calls s @ concat parts)"

lemma logs_forwarded_Nil: "logs_forwarded d [] s s"
  by (simp add: logs_forwarded_def)

lemma logs_forwarded_Cons:
  assumes "log_forwarded d c part" and "calls t = calls s @ part" and "logs_forwarded d cs t u"
  shows "logs_forwarded d (c # cs) s u"
proof -
  from assms(3) obtain parts where "list_all2 (log_forwarded d) cs parts" "calls u = calls t @ concat parts"
    by (auto simp: logs_forwarded_def)
  with assms(1,2) show ?thesis
    unfolding logs_forwarded_def by (intro exI [of _ "part # parts"]) simp
qed

lemma forward_log_calls:
  assumes "clean_log_options c = Some l" and "forward_log d c l errors s = (x, t)"
  obtains part where "log_forwarded d c part" and "calls t = calls s @ part"
proof
  let ?part = "forwarding d (clean_name c) (lo_action l) (lo_source l) (world s)"
  show "log_forwarded d c ?part" using assms(1) by (auto simp: log_forwarded_def)
  show "calls t = calls s @ ?part"
    using assms(2) handle_log_effect [of d c "lo_action l" "lo_source l" s]
    by (cases "handle_log d c (lo_action l) (lo_source l) s")
       (auto simp: forward_log_def ret_defs elim!: matchR_cases)
qed

lemma forward_log_total: "\<exists>errors' t. forward_log d c l errors s = (Ok errors' :: ('e, _) result, t)"
proof -
  have "total (forward_log d c l errors :: (_, 'e, _) action)"
    unfolding forward_log_def by (intro total_rules calm_handle_log)
  then show ?thesis by (auto simp: total_def)
qed

lemma handle_logs_calls:
  "logs_forwarded d (filter (logged_after failed) cs) s
     (snd (handle_logs d failed cs errors s :: ('e, _) result \<times> _))"
proof (induction cs arbitrary: s errors)
  case Nil
  then show ?case by (simp add: ret_defs logs_forwarded_Nil)
next
  case (Cons c cs)
  show ?case
  proof (cases "logged_after failed c")
    case True
    then obtain l where l: "clean_log_options c = Some l"
      "lo_policy l = AlwaysLog \<or> lo_policy l = OnError \<and> failed"
      by (auto simp: logged_after_def split: option.splits)
    obtain errors' t where t: "forward_log d c l errors s = (Ok errors' :: ('e, _) result, t)"
      using forward_log_total by blast
    obtain part where part: "log_forwarded d c part" "calls t = calls s @ part"
      using l(1) t by (rule forward_log_calls)
    have "handle_logs d failed (c # cs) errors s = (handle_logs d failed cs errors' t :: ('e, _) result \<times> _)"
      using l t by (auto split: log_policy.split)
    with True logs_forwarded_Cons [OF part Cons.IH] show ?thesis by simp
  next
    case False
    then have "handle_logs d failed (c # cs) errors s = (handle_logs d failed cs errors s :: ('e, _) result \<times> _)"
      by (auto simp: logged_after_def returnR_def bindR_def matchR_def split: option.splits log_policy.split)
    with False Cons.IH show ?thesis by simp
  qed
qed

lemma handle_startup_logs_calls:
  "logs_forwarded d (filter (\<lambda>c. clean_log_options c \<noteq> None) cs) s
     (snd (handle_startup_logs d cs errors s :: ('e, _) result \<times> _))"
proof (induction cs arbitrary: s errors)
  case Nil
  then show ?case by (simp add: ret_defs logs_forwarded_Nil)
next
  case (Cons c cs)
  show ?case
  proof (cases "clean_log_options c")
    case None
    with Cons.IH show ?thesis by (simp add: returnR_def bindR_def matchR_def)
  next
    case (Some l)
    obtain errors' t where t: "forward_log d c l errors s = (Ok errors' :: ('e, _) result, t)"
      using forward_log_total by blast
    obtain part where part: "log_forwarded d c part" "calls t = calls s @ part"
      using Some t by (rule forward_log_calls)
    have "handle_startup_logs d (c # cs) errors s = (handle_startup_logs d cs errors' t :: ('e, _) result \<times> _)"
      using Some t by simp
    with Some logs_forwarded_Cons [OF part Cons.IH] show ?thesis by simp
  qed
qed

text \<open>
  C36: whose logs are forwarded, once each and in the order of the containers: after a test body those
  whose policy is to log always, and those to log on error when the body failed; after a failed startup
  those of every container with log options, whatever its policy. Nothing else is asked for, a log
  that cannot be forwarded does not keep the next ones from it, and both loops always finish, with the
  errors as a value.
\<close>

theorem logs_by_policy:
  "(\<exists>errors' s'. handle_logs d failed cs errors s = (Ok errors' :: ('e, _) result, s')
      \<and> logs_forwarded d (filter (logged_after failed) cs) s s')
   \<and> (\<exists>errors' s'. handle_startup_logs d cs errors s = (Ok errors' :: ('e, _) result, s')
      \<and> logs_forwarded d (filter (\<lambda>c. clean_log_options c \<noteq> None) cs) s s')"
proof -
  have "total (handle_logs d failed cs errors :: (_, 'e, _) action)"
    "total (handle_startup_logs d cs errors :: (_, 'e, _) action)"
    by (rule total_logs)+
  then show ?thesis
    unfolding total_def
    using handle_logs_calls [where 'e = 'e, of d failed cs s errors]
      handle_startup_logs_calls [where 'e = 'e, of d cs s errors]
    by (metis snd_conv)
qed

end
