(* ===== verification/History.thy ===== *)
theory History
  imports Outcome
begin

text \<open>
  The registries of static containers over the whole history of a process: every test that runs,
  whatever its outcome, leaves them consistent, so what the other properties assume of them at the
  beginning of a test holds.
\<close>

section \<open>What keeps the registries consistent\<close>

definition shared :: "'w sys \<Rightarrow> (string \<times> internal_container) list \<times> (string \<times> dynamic_status) list" where
  "shared s = (internals s, dynamics s)"

definition keeps_statics :: "'w sys \<Rightarrow> 'w sys \<Rightarrow> bool" where
  "keeps_statics s t \<longleftrightarrow> (statics_ok s \<longrightarrow> statics_ok t)"

interpretation consistent: effect_order keeps_statics
  by unfold_locales (simp_all add: keeps_statics_def)

lemma same_keeps_statics: "within (same shared) m \<Longrightarrow> within keeps_statics m"
  by (simp add: within_def same_def shared_def keeps_statics_def statics_ok_def)

lemma shared_frame [simp]:
  "shared (s\<lparr>world := w, calls := c\<rparr>) = shared s" "shared (s\<lparr>world := w\<rparr>) = shared s"
  "shared (s\<lparr>state_cells := x\<rparr>) = shared s" "shared (s\<lparr>id_cells := y\<rparr>) = shared s"
  "shared (s\<lparr>singular := z\<rparr>) = shared s" "shared (s\<lparr>externals := e\<rparr>) = shared s"
  by (simp_all add: shared_def)

text \<open>
  A start keeps the registries consistent also when the container is not registered any more, as for a
  start that was detached and runs after the teardown.
\<close>

lemma internal_start_consistent: "lawful_waits d \<Longrightarrow> within keeps_statics (internal_start d p)"
proof
  fix s
  assume d: "lawful_waits d"
  obtain x t where i: "internal_start d p s = (x, t)" by fastforce
  have dyn: "dynamics t = dynamics s" using within_same [OF same_internal_start [OF d] i] .
  have "statics_ok t" if ok: "statics_ok s"
  proof -
    have ok': "internals_ok (internals t)"
      using internal_start_keeps_ok [OF d i] ok by (simp add: statics_ok_def)
    from d i show ?thesis
    proof (rule internal_start_effect)
      assume "internals t = internals s"
      with ok dyn show ?thesis by (simp add: statics_ok_def)
    next
      fix c q st
      assume m: "map_of (internals s) (pend_name p) = Some c" "int_status c = IPending q"
        and t: "internals t = AList.map_entry (pend_name p) (\<lambda>c. c\<lparr>int_status := st\<rparr>) (internals s)"
        and st: "(\<exists>r. st = IOperational r q \<and> x = Ok r \<and> same_container q r)
          \<or> (\<exists>e. st = IFailed e (Some (pend_id p)) \<and> x = Err e)"
      have "internal_entry (int_status c)" using ok m(1) by (simp add: statics_ok_def)
      then have "internal_entry st" using m(2) st by auto
      with ok ok' dyn m(1) show ?thesis by (auto simp: statics_ok_def t map_of_map_entry)
    qed
  qed
  with i show "keeps_statics s (snd (internal_start d p s))" by (simp add: keeps_statics_def)
qed

lemma dynamic_start_consistent: "lawful_waits d \<Longrightarrow> within keeps_statics (dynamic_start d p)"
proof
  fix s
  assume d: "lawful_waits d"
  obtain x t where i: "dynamic_start d p s = (x, t)" by fastforce
  have "statics_ok t" if ok: "statics_ok s"
    using d i
  proof (rule dynamic_start_effect)
    assume "internals t = internals s" "dynamics t = dynamics s"
    with ok show ?thesis by (simp add: statics_ok_def)
  next
    fix q st
    assume m: "map_of (dynamics s) (pend_name p) = Some (DPending q)" "internals t = internals s"
      and t: "dynamics t = AList.update (pend_name p) st (dynamics s)"
      and st: "(\<exists>r. st = DRunning r q \<and> x = Ok r \<and> same_container q r) \<or> (\<exists>e. st = DFailed e \<and> x = Err e)"
    have "dynamic_entry (pend_name p) (DPending q)" using ok m(1) unfolding statics_ok_def by blast
    then have "dynamic_entry (pend_name p) st" using st by auto
    with ok m(2) show ?thesis by (auto simp: statics_ok_def t update_conv')
  qed
  with i show "keeps_statics s (snd (dynamic_start d p s))" by (simp add: keeps_statics_def)
qed

lemma start_container_consistent:
  assumes "lawful_waits d"
  shows "within keeps_statics (start_container d p)"
proof -
  have "within keeps_statics (start_container_inner d q)" for q
    using same_start_container_inner [OF assms]
    by (intro same_keeps_statics) (simp add: within_def same_def registries_def shared_def)
  then show ?thesis
    unfolding start_container_def static_start_def
    by (intro consistent.rules)
       (auto intro!: consistent.rules internal_start_consistent [OF assms] dynamic_start_consistent [OF assms]
          split: static_management_policy.split)
qed

lemma create_container_consistent: "within keeps_statics (create_container d c nw mode)"
proof
  fix s
  obtain x t where c: "create_container d c nw mode s = (x, t)" by fastforce
  have "statics_ok s \<Longrightarrow> statics_ok t" using create_container_registers [OF _ c] by blast
  with c show "keeps_statics s (snd (create_container d c nw mode s))" by (simp add: keeps_statics_def)
qed

lemma decrement_consistent: "within keeps_statics (decrement_completion_counters ids)"
proof
  fix s
  have "statics_ok (s\<lparr>internals := map (\<lambda>(n, c). (n, release_one ids c)) (internals s)\<rparr>)" if ok: "statics_ok s"
  proof -
    have entry: "internal_entry (int_status c) \<Longrightarrow> internal_entry (int_status (release_one ids c))" for c
      by (simp add: release_one_def)
    have "internals_ok (map (\<lambda>(n, c). (n, release_one ids c)) (internals s))"
      using ok release_ok by (simp add: statics_ok_def)
    with ok entry show ?thesis by (auto simp: statics_ok_def map_of_release)
  qed
  then show "keeps_statics s (snd (decrement_completion_counters ids s))"
    by (auto simp: keeps_statics_def decrement_completion_counters_ok statics_ok_def)
qed

section \<open>Whole tests\<close>

lemma teardown_consistent: "within keeps_statics (teardown d r e failed)"
proof (rule within_teardown [OF consistent.effect_order_axioms])
  fix q and f :: "'w \<Rightarrow> (b_error + unit) \<times> 'w"
  show "within keeps_statics (issue q f)"
    by (intro same_keeps_statics same_rules) simp
qed (rule decrement_consistent)

lemma same_shared_preparation:
  "within (same shared) (generate_random_string d n)"
  "within (same shared) (configure_names d ns cs)"
  "within (same shared) (pull_image d i src)"
  "within (same shared) (create_singular_network d self ns)"
proof -
  show gen: "within (same shared) (generate_random_string d n)" for n
    by (induction n) (auto intro!: same_rules)
  show "within (same shared) (configure_names d ns cs)"
    by (induction cs) (auto intro!: same_rules gen)
  show "within (same shared) (pull_image d i src)"
    unfolding pull_image_def does_image_exist_def get_image_id_def do_pull_def Let_def
    by (intro same_rules same_set_id) (auto intro!: same_rules same_set_id split: b_error.split)
  show "within (same shared) (create_singular_network d self ns)"
    unfolding create_singular_network_def connect_singular_def insert_singular_def
    by (intro same_rules same_networks)
       (auto intro!: same_rules same_networks split: option.split network_creation.split)
qed

lemma preparation_consistent:
  "within keeps_statics (resolve_final_container_name d ns e)"
  "within keeps_statics (pull_images d src e)"
  "within keeps_statics (resolve_network d r)"
  "within keeps_statics (Runner_new d config)"
proof -
  show "within keeps_statics (resolve_final_container_name d ns e)"
    unfolding resolve_final_container_name_def
    by (intro same_keeps_statics same_rules same_shared_preparation)
  show "within keeps_statics (pull_images d src e)"
    unfolding pull_images_def
    by (intro same_keeps_statics same_rules) (auto intro: same_shared_preparation)
  show "within keeps_statics (resolve_network d r)"
    unfolding resolve_network_def
    by (auto intro!: consistent.rules same_keeps_statics same_networks split: network.split)
  show "within keeps_statics (Runner_new d config)"
    unfolding Runner_new_def Runner_try_new_def unwrap_action_def
    by (intro consistent.rules same_keeps_statics same_shared_preparation)
       (auto intro!: same_rules same_shared_preparation split: network.split)
qed

lemma run_containers_consistent:
  assumes "lawful_waits d" and "\<And>e. within keeps_statics (test e)"
  shows "within keeps_statics (run_containers d sched r test e)"
proof -
  note starts = within_start_containers [OF consistent.effect_order_axioms start_container_consistent [OF assms(1)]]
  have ignite: "within keeps_statics (ignite d nw mode e)" for nw mode e
    unfolding ignite_def Let_def by (intro consistent.rules) (auto intro: create_container_consistent)
  have logs: "within keeps_statics (handle_logs d failed cs errors)"
    "within keeps_statics (handle_startup_logs d cs errors)" for failed cs errors
    by (intro same_keeps_statics same_logs; simp)+
  have startup: "within keeps_statics (startup_failed d sched ts r e)" for ts e
    unfolding startup_failed_def Let_def
    by (intro consistent.rules starts teardown_consistent logs)
  have inspects: "within keeps_statics (inspect d nn e)" for nn e
  proof -
    have "within (same shared) (inspect_kept d nn ts)" for ts
      by (induction d nn ts rule: inspect_kept.induct)
         (auto intro!: same_rules same_get_container_ip_and_ports)
    then show ?thesis unfolding inspect_def by (intro same_keeps_statics same_rules)
  qed
  have spawned: "within keeps_statics (spawn_body (test e))" for e
    using assms(2) [of e]
    by (auto simp: within_def spawn_body_def split: prod.split result.split) (metis snd_conv)+
  have body: "within keeps_statics (run_body d r test e)" for e
    unfolding run_body_def Let_def
    by (intro consistent.rules spawned logs teardown_consistent)
       (auto intro!: consistent.rules split: body_outcome.split)
  have orbit: "within keeps_statics (run_orbit d r test e)" for e
    unfolding run_orbit_def fail_with_last_def
    by (intro consistent.rules inspects teardown_consistent body)
  show ?thesis
    unfolding run_containers_def fail_with_last_def
    by (intro consistent.rules ignite starts startup orbit)
qed

lemma run_impl_consistent:
  assumes "lawful_waits d" and "\<And>e. within keeps_statics (test e)"
  shows "within keeps_statics (run_impl d sched r test)"
  unfolding run_impl_def Let_def
  by (auto intro!: consistent.rules preparation_consistent run_containers_consistent assms split: result.split)

lemma DockerTest_run_consistent:
  assumes "\<And>d. Docker_new h = Ok d \<Longrightarrow> lawful_waits d" and "\<And>e. within keeps_statics (test e)"
  shows "within keeps_statics (DockerTest_run h sched config test)"
  unfolding DockerTest_run_def DockerTest_run_async_def process_run_def
  by (auto intro!: consistent.rules preparation_consistent run_impl_consistent assms split: sum.split result.split)

section \<open>Properties\<close>

text \<open>
  The states of the process between tests, from the start on with empty registries. Each test has a
  schedule, a configuration and a body of its own; bodies do not reach the registries.
\<close>

inductive between_tests :: "'w host \<Rightarrow> 'w sys \<Rightarrow> bool" for h where
  fresh: "internals s = [] \<Longrightarrow> dynamics s = [] \<Longrightarrow> between_tests h s"
| tested: "between_tests h s \<Longrightarrow> (\<And>e. within keeps_statics (test e)) \<Longrightarrow>
    DockerTest_run h sched config test s = (x, t) \<Longrightarrow> between_tests h t"

text \<open>
  C14: over any history of tests, passing, failing or panicking in any phase, the registries stay
  consistent: names are unique, a shared container waits or runs under its own name with a positive
  counter, and a running one is the running form of the container that was created. So the next test
  finds every premise that the properties of a single test make on the registries.
\<close>

theorem registries_survive_tests:
  assumes "between_tests h s" and "\<And>d. Docker_new h = Ok d \<Longrightarrow> lawful_waits d"
  shows "statics_ok s"
  using assms(1)
proof induction
  case (fresh s)
  then show ?case by (simp add: statics_ok_def internals_ok_def)
next
  case (tested s test sched config x t)
  have "within keeps_statics (DockerTest_run h sched config test)"
    using assms(2) tested.hyps(2) by (rule DockerTest_run_consistent)
  with tested show ?case by (auto simp: keeps_statics_def dest: withinD)
qed

end
