(* ===== verification/Passing.thy ===== *)
theory Passing
  imports History
begin

text \<open>
  From the outside: what a test that passes has gone through, from \<open>DockerTest::run\<close> in
  \<open>src/dockertest.rs\<close> to its body, and with which containers.
\<close>

section \<open>The way to the body\<close>

lemma register_handles_cong:
  "map handle cs = map handle cs' \<Longrightarrow> register_handles i cs k = register_handles i cs' k"
proof (induction cs arbitrary: cs' i k)
  case (Cons c cs)
  then obtain c' cs'' where "cs' = c' # cs''" "handle c = handle c'" "map handle cs = map handle cs''"
    by (auto simp: Cons_eq_map_conv)
  with Cons.IH show ?case by simp
qed simp

lemma handle_volumes: "handle (c\<lparr>final_named_volume_names := names\<rparr>) = handle c"
  by (cases "user_provided_container_name c") (simp_all add: handle_def)

lemma resolved_bootstrap:
  "eng_keeper (bootstrap (dt_compositions (r_config (resolve_named_volumes (check_if_inside_container d r)))))
     = eng_keeper (bootstrap (dt_compositions (r_config r)))"
  "length (dt_compositions (r_config (resolve_named_volumes (check_if_inside_container d r))))
     = length (dt_compositions (r_config r))"
proof -
  let ?r = "check_if_inside_container d r"
  have c: "dt_compositions (r_config ?r) = dt_compositions (r_config r)"
    by (simp add: check_if_inside_container_def split: option.split)
  have "map handle (dt_compositions (r_config (resolve_named_volumes ?r))) = map handle (dt_compositions (r_config r))"
    by (simp add: resolved_volumes c handle_volumes)
  then show "eng_keeper (bootstrap (dt_compositions (r_config (resolve_named_volumes ?r))))
      = eng_keeper (bootstrap (dt_compositions (r_config r)))"
    by (auto simp: bootstrap_def intro!: register_handles_cong)
  then show "length (dt_compositions (r_config (resolve_named_volumes ?r))) = length (dt_compositions (r_config r))"
    by (simp add: resolved_volumes c)
qed

lemma injected_Ok:
  assumes "resolve_inject_container_name_env e = Ok e'"
  shows "eng_keeper e' = eng_keeper e \<and> length (eng_phase e') = length (eng_phase e)"
  using assms
  by (auto simp: resolve_inject_container_name_env_def resolve_all_injections_Ok dest: list_all2_lengthD
      split: result.splits)

lemma run_body_passes:
  assumes "run_body d r test e s = (Ok u, s')"
  shows "fst (test e s) = Ok ()"
  using assms
  by (cases "test e s"; cases "fst (test e s)")
     (auto simp: run_body_def Let_def spawn_body_def ret_defs elim!: bindR_Ok split: body_outcome.splits)

text \<open>
  The way of a run to the body: with the runner \<open>r\<close> that has its volumes resolved, the names, the
  injected environments, the images, the network, the creation, the start, and the inspection without
  errors; \<open>created\<close> is the engine after the creation, \<open>ready\<close> the one that the body gets, in state \<open>t\<close>.
\<close>

definition reaches_body ::
  "'w bollard \<Rightarrow> schedule \<Rightarrow> runner \<Rightarrow> 'w sys \<Rightarrow> runner \<Rightarrow> igniting_phase engine \<Rightarrow> orbiting_phase engine
   \<Rightarrow> 'w sys \<Rightarrow> bool" where
  "reaches_body d sched r0 s r created ready t \<longleftrightarrow>
     (let r1 = resolve_named_volumes (check_if_inside_container d r0) in
      r = r1\<lparr>r_config := (r_config r1)\<lparr>dt_compositions := []\<rparr>\<rparr> \<and>
      (\<exists>named s1 fueled s2 s3 s4 started s5.
        resolve_final_container_name d (dt_namespace (r_config r)) (bootstrap (dt_compositions (r_config r1))) s
          = (Ok named :: (docker_test_error, _) result, s1)
        \<and> resolve_inject_container_name_env (fuel named) = Ok fueled
        \<and> pull_images d (dt_default_source (r_config r)) fueled s1 = (Ok (), s2)
        \<and> resolve_network d r s2 = (Ok (), s3)
        \<and> ignite d (r_network r) (dt_network (r_config r)) fueled s3 = (Ok created, s4)
        \<and> orbiting d sched created s4 = (Ok started, s5)
        \<and> inspect d (inspect_network_name r) started s5 = (Ok (ready, []) :: (docker_test_error, _) result, t)))"

lemma run_impl_reaches:
  assumes "run_impl d sched r0 test s = (Ok u, s')"
  shows "\<exists>r created ready t. reaches_body d sched r0 s r created ready t \<and> run_body d r test ready t = (Ok (), s')"
proof -
  define r1 where "r1 = resolve_named_volumes (check_if_inside_container d r0)"
  define r where "r = r1\<lparr>r_config := (r_config r1)\<lparr>dt_compositions := []\<rparr>\<rparr>"
  from assms obtain named s1 fueled s2 s3 where
    1: "resolve_final_container_name d (dt_namespace (r_config r)) (bootstrap (dt_compositions (r_config r1))) s
      = (Ok named :: (docker_test_error, _) result, s1)"
    "resolve_inject_container_name_env (fuel named) = Ok fueled"
    "pull_images d (dt_default_source (r_config r)) fueled s1 = (Ok (), s2)"
    "resolve_network d r s2 = (Ok (), s3)"
    and 2: "run_containers d sched r test fueled s3 = (Ok u, s')"
    by (auto simp: run_impl_def Let_def ret_defs r1_def [symmetric] r_def elim!: bindR_Ok split: result.splits)
  from 2 obtain created s4 started s5 where
    3: "ignite d (r_network r) (dt_network (r_config r)) fueled s3 = (Ok created, s4)"
    "orbiting d sched created s4 = (Ok started, s5)" and orbit: "run_orbit d r test started s5 = (Ok u, s')"
    by (auto simp: run_containers_def fail_with_last_def ret_defs elim!: matchR_cases bindR_Ok split: if_splits)
  from orbit obtain ready t where
    4: "inspect d (inspect_network_name r) started s5 = (Ok (ready, []) :: (docker_test_error, _) result, t)"
    and "run_body d r test ready t = (Ok (), s')"
    by (auto simp: run_orbit_def fail_with_last_def ret_defs elim!: bindR_Ok split: if_splits)
  moreover have "reaches_body d sched r0 s r created ready t"
    unfolding reaches_body_def Let_def r1_def [symmetric] using 1 3 4 r_def by blast
  ultimately show ?thesis by blast
qed

lemma reaches_body_ready:
  assumes "lawful_waits d" and "statics_ok s" and "reaches_body d sched r0 s r created ready t"
  shows "eng_keeper ready = eng_keeper (bootstrap (dt_compositions (r_config r0)))
    \<and> length (eng_phase created) = length (dt_compositions (r_config r0))
    \<and> length (eng_phase ready) = length (dt_compositions (r_config r0))
    \<and> (distinct (map pend_id (pending_of (eng_phase created))) \<longrightarrow>
       pend_handle ` set (pending_of (eng_phase created))
         \<inter> ext_handle ` set (external_refs (eng_phase created)) = {} \<longrightarrow>
       list_all ready_form (eng_phase ready))"
proof -
  let ?r1 = "resolve_named_volumes (check_if_inside_container d r0)"
  let ?b = "bootstrap (dt_compositions (r_config ?r1))"
  from assms(3) obtain named s1 fueled s2 s3 s4 started s5 where
    names: "resolve_final_container_name d (dt_namespace (r_config r)) ?b s = (Ok named :: (docker_test_error, _) result, s1)"
    and inject: "resolve_inject_container_name_env (fuel named) = Ok fueled"
    and pull: "pull_images d (dt_default_source (r_config r)) fueled s1 = (Ok (), s2)"
    and net: "resolve_network d r s2 = (Ok (), s3)"
    and create: "ignite d (r_network r) (dt_network (r_config r)) fueled s3 = (Ok created, s4)"
    and start: "orbiting d sched created s4 = (Ok started, s5)"
    and check: "inspect d (inspect_network_name r) started s5 = (Ok (ready, []) :: (docker_test_error, _) result, t)"
    unfolding reaches_body_def Let_def by blast
  have ok: "statics_ok s3"
    using withinD [OF preparation_consistent(1) names] withinD [OF preparation_consistent(2) pull]
      withinD [OF preparation_consistent(3) net] assms(2) by (simp add: keeps_statics_def)
  have "eng_keeper fueled = eng_keeper ?b" "length (eng_phase fueled) = length (dt_compositions (r_config ?r1))"
    using resolve_final_Ok [OF names] injected_Ok [OF inject] by (auto simp: bootstrap_def dest: list_all2_lengthD)
  moreover have "list_all ready_form (eng_phase ready)"
    if ids: "distinct (map pend_id (pending_of (eng_phase created)))"
      "pend_handle ` set (pending_of (eng_phase created)) \<inter> ext_handle ` set (external_refs (eng_phase created)) = {}"
    using started_ready_forms [OF assms(1) ok create start ids] inspect_forms [OF check] by blast
  ultimately show ?thesis
    using ignite_forms [OF create] orbiting_length [OF start] inspect_forms [OF check]
    by (simp add: resolved_bootstrap)
qed

lemma Runner_new_config: "Runner_new d config s = (Ok r, s') \<Longrightarrow> r_config r = config"
  by (auto simp: Runner_new_def Runner_try_new_def unwrap_action_def ret_defs elim!: bindR_Ok matchR_cases)

section \<open>Properties\<close>

text \<open>
  C10: running a test has no error value. If it returns, the daemon was reached, the runner was made,
  every phase of the run succeeded, and the body was called with the engine and in the state that the
  inspection left, and ran to its end there, with the handles of the compositions and as many
  containers as compositions; and each of these containers is a running one or an external one, as long
  as the created ones have different identifiers and share no handle with an external one: a test
  cannot pass without its body, or with a container that was not created or not started. Without a
  connection nothing at all happens.
\<close>

theorem passing_test:
  assumes "statics_ok s" and "\<And>d. Docker_new h = Ok d \<Longrightarrow> lawful_waits d"
  shows "case DockerTest_run h sched config test s of
     (Ok _, s') \<Rightarrow> \<exists>d r0 s0 r created ready t. Docker_new h = Ok d \<and> Runner_new d config s = (Ok r0, s0)
       \<and> reaches_body d sched r0 s0 r created ready t
       \<and> fst (test ready t) = Ok () \<and> run_body d r test ready t = (Ok (), s')
       \<and> eng_keeper ready = eng_keeper (bootstrap (dt_compositions config))
       \<and> length (eng_phase ready) = length (dt_compositions config)
       \<and> (distinct (map pend_id (pending_of (eng_phase created))) \<longrightarrow>
          pend_handle ` set (pending_of (eng_phase created))
            \<inter> ext_handle ` set (external_refs (eng_phase created)) = {} \<longrightarrow>
          list_all ready_form (eng_phase ready))
   | (Err _, s') \<Rightarrow> False
   | (Panic _, s') \<Rightarrow> (\<exists>d. Docker_new h = Ok d) \<or> s' = s"
proof (cases "\<exists>d. runtime_new h = Inr () \<and> Docker_new h = Ok d")
  case False
  then show ?thesis
    by (auto simp: DockerTest_run_def DockerTest_run_async_def ret_defs split: sum.split result.split)
next
  case True
  then obtain d where d: "Docker_new h = Ok d" and
    run: "DockerTest_run h sched config test s = bindR (Runner_new d config) (\<lambda>runner.
      process_run (run_impl d sched runner test)) s"
    by (auto simp: DockerTest_run_def DockerTest_run_async_def)
  obtain x s0 where x: "Runner_new d config s = (x, s0)" by fastforce
  show ?thesis
  proof (cases x)
    case (Ok r0)
    obtain y s' where y: "run_impl d sched r0 test s0 = (y, s')" by fastforce
    have config: "r_config r0 = config" using x Ok Runner_new_config by blast
    have ok: "statics_ok s0"
      using withinD [OF preparation_consistent(4) x] assms(1) by (simp add: keeps_statics_def)
    show ?thesis
    proof (cases y)
      case (Ok u)
      obtain r created ready t where b: "reaches_body d sched r0 s0 r created ready t"
        "run_body d r test ready t = (Ok (), s')"
        using run_impl_reaches y Ok by blast
      note facts = reaches_body_ready [OF assms(2) [OF d] ok b(1), unfolded config]
      have "DockerTest_run h sched config test s = (Ok (), s')"
        using run x \<open>x = Ok r0\<close> y Ok by (simp add: process_run_def ret_defs)
      then show ?thesis
        using d x \<open>x = Ok r0\<close> b run_body_passes [OF b(2)] facts by simp blast
    qed (use run x \<open>x = Ok r0\<close> y d in \<open>auto simp: process_run_def ret_defs\<close>)
  next
    case (Err e)
    with x show ?thesis by (auto simp: Runner_new_def unwrap_action_def ret_defs elim!: matchR_cases)
  next
    case (Panic p)
    with run x d show ?thesis by simp
  qed
qed

end
