(* ===== verification/Component_Examples.thy ===== *)
theory Component_Examples
  imports Run_Examples Polling Ports Pulling Start_Once Sharing Logs Passing
begin

text \<open>
  Witnesses for the properties of single components, on the daemon of \<open>Sample\<close> and variants of it.
\<close>

section \<open>Images\<close>

lemma sample_pull:
  "pull_image sample sample_image DockerHub sample_state =
     (Ok (), sample_state\<lparr>calls := [InspectImage ''web:latest'', InspectImage ''web:latest''],
        id_cells := [''sha'']\<rparr>)"
  by (simp add: pull_image_def does_image_exist_def get_image_id_def set_id_def modify_def liftE_def
      image_reference_def sample_image_def issue_def action_defs)

lemma pull_image_decides_witness:
  "\<exists>v. id_cells (snd (pull_image sample sample_image DockerHub sample_state)) = [''''][0 := v]"
  using pull_image_decides [OF sample_pull] by (simp add: sample_pull Let_def)

lemma pulled_image_used_witness:
  "\<exists>body. cb_image body = ''sha'' \<and> last (calls (snd (create_container_inner sample sample_web (Some ''net'')
      (snd (pull_image sample sample_image DockerHub sample_state))))) = CreateContainer ''web'' body"
proof -
  let ?t = "snd (pull_image sample sample_image DockerHub sample_state)"
  have c: "create_container sample sample_web (Some ''net'') Isolated ?t
      = bindR (create_container_inner sample sample_web (Some ''net'')) (\<lambda>p. returnR (Pending p)) ?t"
    by (simp add: create_container_def sample_web_def is_static_def with_image_def)
  obtain p t' where p: "create_container_inner sample sample_web (Some ''net'') ?t = (Ok p, t')"
  proof -
    have web: "\<not> is_static sample_web" "comp_wait sample_web = NoWait" "comp_start_policy sample_web = Relaxed"
      "id_cells ?t = [''sha'']"
      by (simp_all add: sample_web_def with_image_def is_static_def sample_pull)
    obtain p s' where "create_container sample sample_web (Some ''net'') Isolated ?t = (Ok (Pending p), s')"
      using sample_creates [OF web(1) _ web(4,2,3)] by fastforce
    then show thesis using that by (auto simp: c ret_defs elim!: bindR_Ok)
  qed
  have "img_id (comp_image sample_web) = img_id sample_image" "img_id sample_image < length (id_cells sample_state)"
    by (simp_all add: sample_image_def)
  then obtain w body where "case fst (b_inspect_image sample (image_reference sample_image) w) of
        Inr found \<Rightarrow> found = Some (cb_image body) | Inl _ \<Rightarrow> False"
    "last (calls t') = CreateContainer (container_name sample_web) body"
    using pulled_image_used [OF sample_pull p] by (auto simp: sample_pull)
  then show ?thesis by (intro exI [of _ body]) (simp add: p)
qed

section \<open>Starting\<close>

lemma started_exactly_once_witness:
  "\<exists>rs. calls (snd (run_containers sample sample_schedule sample_runner (\<lambda>e. panicR ''assertion failed'')
        (bootstrap [sample_web]) sample_state)) = calls sample_created_state @ rs
     \<and> count_list rs (StartContainer ''web'') = 1"
proof -
  let ?test = "\<lambda>e :: transitional list engine. panicR ''assertion failed'' :: (nat sys, unit, unit) action"
  have body: "issues (\<lambda>q. q \<noteq> StartContainer (pend_name sample_pending)) (?test e)" for e by (intro issues_rules)
  have ignited: "ignite sample (r_network sample_runner) (dt_network (r_config sample_runner)) (bootstrap [sample_web])
      sample_state = (Ok sample_ignited, sample_created_state)"
    by (simp add: sample_ignites)
  obtain e s where o: "orbiting sample sample_schedule sample_ignited sample_created_state = (Ok e, s)"
    by (rule sample_orbits)
  obtain y s' where run: "run_containers sample sample_schedule sample_runner ?test (bootstrap [sample_web]) sample_state
      = (y, s')"
    by fastforce
  from started_exactly_once [OF sample_lawful sample_statics_ok(1) ignited _ _ _ body run] run
  show ?thesis by (auto simp: o)
qed

lemma strict_in_order_witness:
  "\<exists>ready rest rs t waits. [sample_pending, sample_pending] = ready @ rest
     \<and> started_in_order sample ready sample_state rs t \<and> length waits = length ready + (if rest = [] then 0 else 1)
     \<and> calls (snd (start_strict_containers sample [] [] [sample_pending, sample_pending] sample_state))
       = concat (map2 start_and_wait [sample_pending, sample_pending] waits)"
proof -
  obtain x s' where "start_strict_containers sample [] [] [sample_pending, sample_pending] sample_state = (x, s')"
    by fastforce
  note run = this
  obtain ready rest rs t waits where
    "[sample_pending, sample_pending] = ready @ rest" "started_in_order sample ready sample_state rs t"
    "calls s' = calls sample_state @ concat (map2 start_and_wait [sample_pending, sample_pending] waits)"
    "length waits = length ready + (if rest = [] then 0 else 1)"
    by (rule strict_in_order [OF sample_lawful _ run, elim_format]) (simp, elim exE conjE, rule that)
  moreover have "calls sample_state = []" by (simp add: sample_state_def)
  ultimately show ?thesis using run by (intro exI conjI) auto
qed

section \<open>Static containers\<close>

definition sample_stopped :: "nat bollard" where
  "sample_stopped = sample\<lparr>b_inspect_container := (\<lambda>n w. (Inr \<lparr>ir_id = Some n, ir_state = Some (Some EXITED),
     ir_network_settings = None\<rparr>, w))\<rparr>"

text \<open>A daemon that, as documented, answers 404 when a container that is gone is to join a network.\<close>

definition sample_gone :: "nat bollard" where
  "sample_gone = sample_stopped\<lparr>b_connect_network := (\<lambda>n i w. (Inl (DockerResponseServerError 404 ''gone''), w))\<rparr>"

lemma dynamic_stopped_removed_witness:
  "fst (create_container sample_gone sample_dynamic (Some ''net'') Singular sample_state)
     = Err (Startup (''failed to add static container to dockertest network: '' @ ''gone''))
   \<and> calls (snd (create_container sample_gone sample_dynamic (Some ''net'') Singular sample_state))
     = [InspectContainer ''db'', RemoveContainer ''db'' True False, ConnectNetwork ''net'' ''db'']"
proof -
  have c: "static_management_policy_of sample_dynamic = Some Dynamic" "container_name sample_dynamic = ''db''"
    by (simp_all add: sample_dynamic_def static_management_policy_of_def)
  have d: "b_inspect_container sample_gone n w = (Inr \<lparr>ir_id = Some n, ir_state = Some (Some EXITED),
     ir_network_settings = None\<rparr>, w)" "b_remove_container sample_gone n a b w = (Inr (), w)"
    "b_connect_network sample_gone n i w = (Inl (DockerResponseServerError 404 ''gone''), w)"
    "b_display sample_gone (DockerResponseServerError k m) = m" for n a b i w k m
    by (simp_all add: sample_gone_def sample_stopped_def) (simp add: sample_def)
  obtain x s' where x: "create_container sample_gone sample_dynamic (Some ''net'') Singular sample_state = (x, s')"
    by fastforce
  have stopped: "map_of (dynamics sample_state) (container_name sample_dynamic) = None"
    "b_inspect_container sample_gone (container_name sample_dynamic) (world sample_state)
      = (Inr \<lparr>ir_id = Some ''db'', ir_state = Some (Some EXITED), ir_network_settings = None\<rparr>, 0)"
    "b_remove_container sample_gone (container_name sample_dynamic) True False 0 = (Inr (), 0)"
    and calls: "calls sample_state = []"
    by (simp_all add: c(2) d sample_state_def)
  from dynamic_stopped_removed [OF c(1) stopped(1,2) _ _ _ stopped(3) x, of EXITED "''db''"] show ?thesis
    by (simp add: c(2) d x calls)
qed

lemma shared_created_once_witness:
  "created_count (creates ''web'') (snd (internal_create sample sample_shared (Some ''net'') Isolated sample_state)) \<le> 1"
proof -
  let ?op = "\<lambda>(c, nw, mode). internal_create sample c nw mode"
  have "?op (sample_shared, Some ''net'', Isolated) sample_state = (Ok shared_pending_web, sample_created)"
    by (simp add: sample_internal_create)
  then have "registry_run ?op internal_present creates sample_state sample_created"
    by (rule registry_run.call [OF registry_run.start]) simp
  from shared_created_once [OF this, of "''web''"] show ?thesis
    by (simp add: sample_internal_create internal_present_def vacant_def created_count_def)
qed

lemma sample_shared_again:
  "internal_create sample sample_shared None Singular sample_created = (Ok shared_pending_web,
     sample_created\<lparr>internals := [(''web'', \<lparr>int_status = IPending shared_pending_web, completion_counter = 2\<rparr>)]\<rparr>)"
  by (simp add: internal_create_def create_internal_container_inner_def join_existing_def increment_completion_eq bump_def run_simps)

lemma counter_exact_witness:
  "count_of (internals (snd (internal_create sample sample_shared None Singular sample_created))) ''web'' = 2"
  using counter_exact [OF sample_shared_again] by (simp add: sample_shared_again)

lemma decrement_releases_witness:
  "fst (decrement_completion_counters [''c''] sample_created :: (docker_test_error, _) result \<times> _) = Ok [''c'']"
proof -
  have "internals_ok (internals sample_created)" "last_released [''c''] (internals sample_created) = [''c'']"
    by (simp_all add: internals_ok_def last_released_def map_filter_simps released_def)
  with decrement_releases [where 'e = docker_test_error, of sample_created "[''c'']"] show ?thesis by simp
qed

definition sample_failed :: "nat sys" where
  "sample_failed = sample_state\<lparr>internals :=
     [(''web'', \<lparr>int_status = IFailed (Startup ''no'') (Some ''c''), completion_counter = 1\<rparr>)]\<rparr>"

lemma failed_start_not_released_witness:
  "\<exists>rs. fst (decrement_completion_counters [''c''] (snd (internal_create sample sample_shared None Singular sample_failed))
       :: (docker_test_error, _) result \<times> _) = Ok rs \<and> ''c'' \<notin> set rs"
proof -
  have i: "internals sample_failed = [(''web'', \<lparr>int_status = IFailed (Startup ''no'') (Some ''c''), completion_counter = 1\<rparr>)]"
    by (simp add: sample_failed_def)
  obtain r s1 where r: "internal_create sample sample_shared None Singular sample_failed = (r, s1)" by fastforce
  have ok: "internals_ok (internals sample_failed)" by (simp add: i internals_ok_def)
  have "internals_ok (internals s1)"
    using create_effect_ok [OF internal_create_effect [OF r] ok] .
  then obtain rs s2 where d: "decrement_completion_counters [''c''] s1 = (Ok rs :: (docker_test_error, _) result, s2)"
    using decrement_completion_counters_ok by blast
  have u: "n = container_name sample_shared" if "map_of (internals sample_failed) n = Some x"
    "container_id (int_status x) = Some ''c''" for n x
    using that(1) by (simp add: i split: if_splits)
  have m: "map_of (internals sample_failed) (container_name sample_shared)
      = Some \<lparr>int_status = IFailed (Startup ''no'') (Some ''c''), completion_counter = 1\<rparr>"
    by (simp add: i)
  have "''c'' \<notin> set rs"
    by (rule failed_start_not_released [OF ok m _ r d, THEN conjunct2, THEN conjunct1]) (rule u)
  then show ?thesis by (simp add: r d)
qed

section \<open>A history of tests\<close>

definition sample_host :: "nat host" where
  "sample_host = \<lparr>tls_feature = False, host_env = (\<lambda>v. None), connect_with_ssl_defaults = Inl (OtherError ''no key''),
     connect_with_local_defaults = Inr sample, host_debug = (\<lambda>e. []), runtime_new = Inr ()\<rparr>"

lemma registries_survive_tests_witness:
  "statics_ok (snd (DockerTest_run sample_host sample_schedule DockerTest_new (\<lambda>e. returnR ()) sample_state))"
proof -
  let ?test = "\<lambda>e :: transitional list engine. returnR () :: (nat sys, unit, unit) action"
  obtain x t where t: "DockerTest_run sample_host sample_schedule DockerTest_new ?test sample_state = (x, t)" by fastforce
  have "between_tests sample_host sample_state" by (rule fresh) simp_all
  then have "between_tests sample_host t"
    by (rule tested [OF _ _ t]) (rule consistent.pureI)
  moreover have "lawful_waits d" if "Docker_new sample_host = Ok d" for d
    using that sample_lawful
    by (simp add: Docker_new_def connect_with_local_or_tls_defaults_def describe_def sample_host_def)
  ultimately have "statics_ok t" by (rule registries_survive_tests)
  with t show ?thesis by simp
qed

section \<open>A test that passes\<close>

lemma sample_host_connects: "Docker_new sample_host = Ok d \<longleftrightarrow> d = sample"
  by (auto simp: Docker_new_def connect_with_local_or_tls_defaults_def describe_def sample_host_def)

lemma sample_random: "generate_random_string sample n s = (Ok (replicate n (char_of (97 :: nat))) :: ('e, _) result, s)"
  by (induction n) (simp_all add: run_simps)

definition db_test :: docker_test where
  "db_test = DockerTest_new\<lparr>dt_compositions := [sample_external]\<rparr>"

definition db_runner :: runner where
  "db_runner = \<lparr>r_config = db_test, r_named_volumes = [], r_network = ''net'', r_id = replicate 20 (char_of (97 :: nat))\<rparr>"

definition db_named :: composition where
  "db_named = sample_external\<lparr>container_name := ''web''\<rparr>"

definition db_before :: "nat sys" where
  "db_before = snd (create_singular_network sample None (dt_namespace DockerTest_new) sample_state)"

lemma db_Runner_new: "Runner_new sample db_test sample_state = (Ok db_runner :: (docker_test_error, _) result, db_before)"
  by (simp add: Runner_new_def Runner_try_new_def unwrap_action_def sample_random own_container_id_def env_var_def
     db_test_def DockerTest_new_def db_runner_def db_before_def create_singular_network_def existing_dockertest_network_def
     create_singular_network_impl_def connect_singular_def run_simps sample_state_def)

lemma db_resolved: "resolve_named_volumes (check_if_inside_container sample db_runner) = db_runner"
  by (simp add: check_if_inside_container_def own_container_id_def env_var_def resolve_named_volumes_def
     db_runner_def db_test_def DockerTest_new_def sample_external_def with_image_def)

lemma db_names: "resolve_final_container_name sample ns (bootstrap [sample_external]) s
    = (Ok ((bootstrap [sample_external])\<lparr>eng_phase := [db_named]\<rparr>) :: ('e, _) result, s)"
  by (simp add: resolve_final_container_name_def sample_random returnR_def bootstrap_def configure_container_name_def
     db_named_def sample_external_def with_image_def is_static_def sample_image_def)

lemma db_injected: "resolve_inject_container_name_env ((bootstrap [sample_external])\<lparr>eng_phase := [db_named]\<rparr>)
    = Ok ((bootstrap [sample_external])\<lparr>eng_phase := [db_named]\<rparr>)"
  by (simp add: resolve_inject_container_name_env_def db_named_def sample_external_def with_image_def inject_env_def)

lemma db_pulls: "\<exists>t. pull_images sample Local ((bootstrap [sample_external])\<lparr>eng_phase := [db_named]\<rparr>) db_before = (Ok (), t)
    \<and> internals t = [] \<and> externals t = [] \<and> dynamics t = []"
  by (simp add: pull_images_def pull_image_def db_named_def sample_external_def with_image_def does_image_exist_def
     get_image_id_def run_simps liftE_def set_id_def modify_def db_before_def create_singular_network_def existing_dockertest_network_def
     create_singular_network_impl_def connect_singular_def sample_state_def)

definition web_running :: "nat \<Rightarrow> operational_container" where
  "web_running a = \<lparr>oper_handle = ''web'', oper_id = ''web'', oper_name = ''web'', oper_ip = UNSPECIFIED, oper_ports = [],
     oper_is_static = True, oper_log_options = comp_log_options sample_external, oper_assumed_state = a\<rparr>"

lemma db_ignited:
  assumes "externals t = []"
  shows "\<exists>e u a. ignite sample ''net'' Singular ((bootstrap [sample_external])\<lparr>eng_phase := [db_named]\<rparr>) t = (Ok e, u)
    \<and> eng_phase e = [TStaticExternal (external_of (web_running a))] \<and> externals u = [(''web'', web_running a)]
    \<and> internals u = internals t \<and> dynamics u = dynamics t"
  using assms
  by (simp add: ignite_def create_container_def static_create_def is_static_def external_include_def
     include_static_external_container_def running_container_from_composition_def add_container_to_network_def
     static_management_policy_of_def db_named_def sample_external_def run_simps transitional_of_def
     new_state_cell_def web_running_def external_of_def with_image_def)

lemma web_orbits:
  assumes "eng_phase e = [TStaticExternal (external_of (web_running a))]" and "externals u = [(''web'', web_running a)]"
    and "dynamics u = []"
  shows "orbiting sample sample_schedule e u = (Ok (e\<lparr>eng_phase := [TRunning (web_running a)]\<rparr>), u)"
  using assms
  by (simp add: orbiting_def start_containers_def map_err_def pending_of_def map_filter_simps wait_for_relaxed_containers_def
     static_external_containers_def external_containers_list_def prior_running_containers_def run_simps
     place_def external_of_def web_running_def)

lemma db_body:
  assumes "internals u = []"
  shows "fst (run_orbit sample r (\<lambda>e. returnR ()) (e\<lparr>eng_phase := [TRunning (web_running a)]\<rparr>) u) = Ok ()"
proof -
  let ?test = "\<lambda>e :: transitional list engine. returnR () :: (nat sys, unit, unit) action"
  let ?e = "e\<lparr>eng_phase := [TRunning (web_running a)]\<rparr>"
  have i: "\<exists>e' v. inspect sample (inspect_network_name r) ?e u = (Ok (e', []) :: (docker_test_error, _) result, v)"
    by (simp add: inspect_def get_container_ip_and_ports_def run_simps try_from_port_map_def liftE_def)
  then obtain e' v where i: "inspect sample (inspect_network_name r) ?e u = (Ok (e', []) :: (docker_test_error, _) result, v)"
    by blast
  have "internals v = internals u" by (rule within_same [OF inspect_frames(2) i])
  then have ok: "internals_ok (internals v)" using assms by (simp add: internals_ok_def)
  obtain y w where y: "run_body sample r ?test e' v = (y, w)" by fastforce
  have "within keeps_ok (?test e)" for e by (intro well_formed.rules)
  then have "y = Ok ()" using run_body_result [OF ok _ y] by (simp add: returnR_def)
  with i y show ?thesis by (simp add: run_orbit_def)
qed

lemma db_passes: "fst (DockerTest_run sample_host sample_schedule db_test (\<lambda>e. returnR ()) sample_state) = Ok ()"
proof -
  let ?test = "\<lambda>e :: transitional list engine. returnR () :: (nat sys, unit, unit) action"
  let ?e = "(bootstrap [sample_external])\<lparr>eng_phase := [db_named]\<rparr>"
  let ?r = "db_runner\<lparr>r_config := (r_config db_runner)\<lparr>dt_compositions := []\<rparr>\<rparr>"
  obtain t where t: "pull_images sample Local ?e db_before = (Ok (), t)" "internals t = []" "externals t = []" "dynamics t = []"
    using db_pulls by blast
  obtain e u a where e: "ignite sample ''net'' Singular ?e t = (Ok e, u)"
    "eng_phase e = [TStaticExternal (external_of (web_running a))]" "externals u = [(''web'', web_running a)]"
    "internals u = []" "dynamics u = []"
    using db_ignited [OF t(3)] t by auto
  have config: "dt_network (r_config db_runner) = Singular" "r_network db_runner = ''net''"
    "dt_default_source (r_config db_runner) = Local"
    "dt_compositions (r_config db_runner) = [sample_external]"
    by (simp_all add: db_runner_def db_test_def DockerTest_new_def)
  have "run_containers sample sample_schedule ?r ?test ?e t = run_orbit sample ?r ?test (e\<lparr>eng_phase := [TRunning (web_running a)]\<rparr>) u"
    using e web_orbits [OF e(2,3,5)] by (simp add: run_containers_def config)
  then have "run_impl sample sample_schedule db_runner ?test db_before
      = run_orbit sample ?r ?test (e\<lparr>eng_phase := [TRunning (web_running a)]\<rparr>) u"
    using t by (simp add: run_impl_def db_resolved Let_def db_names db_injected config resolve_network_def ret_defs)
  with db_body [OF e(4), where r = ?r and e = e and a = a] obtain w where
    "run_impl sample sample_schedule db_runner ?test db_before = (Ok (), w)"
    by (metis prod.collapse)
  moreover have "runtime_new sample_host = Inr ()" "Docker_new sample_host = Ok sample"
    by (simp_all add: sample_host_connects) (simp add: sample_host_def)
  ultimately show ?thesis
    by (simp add: DockerTest_run_def DockerTest_run_async_def db_Runner_new process_run_def returnR_def)
qed

lemma passing_test_witness:
  "\<exists>r created ready t. reaches_body sample sample_schedule db_runner db_before r created ready t
     \<and> length (eng_phase ready) = 1
     \<and> run_body sample r (\<lambda>e. returnR ()) ready t
        = (Ok (), snd (DockerTest_run sample_host sample_schedule db_test (\<lambda>e. returnR ()) sample_state))"
proof -
  let ?test = "\<lambda>e :: transitional list engine. returnR () :: (nat sys, unit, unit) action"
  obtain s' where run: "DockerTest_run sample_host sample_schedule db_test ?test sample_state = (Ok (), s')"
    using db_passes by (metis prod.collapse)
  have lawful: "lawful_waits d" if "Docker_new sample_host = Ok d" for d
    using that sample_lawful by (simp add: sample_host_connects)
  have "dt_compositions db_test = [sample_external]" by (simp add: db_test_def)
  then show ?thesis
    using passing_test [where s = sample_state and h = sample_host and sched = sample_schedule and config = db_test
        and test = ?test] lawful
    by (auto simp: run sample_host_connects db_Runner_new)
qed

end
