(* ===== verification/Build.thy ===== *)
theory Build
  imports Strings
begin

text \<open>
  The build script (\<open>build.rs\<close>): when asked to by the environment, it builds an image from every file of
  the folder \<open>dockerfiles\<close>. The operating system is a parameter, and the steps taken are recorded.
\<close>

section \<open>The operating system\<close>

text \<open>
  An entry of a folder is its file name, or the error that reading it gave; the metadata of interest is
  whether it is a folder. Running a command answers its exit status when the command could be spawned.
\<close>

record build_command =
  bc_dir :: string
  bc_program :: string
  bc_args :: "string list"

record 'w os =
  os_var :: "string \<Rightarrow> string option"
  os_read_dir :: "string \<Rightarrow> 'w \<Rightarrow> (string + (string + string) list) \<times> 'w"
  os_metadata :: "string \<Rightarrow> 'w \<Rightarrow> (string + bool) \<times> 'w"
  os_output :: "build_command \<Rightarrow> 'w \<Rightarrow> (string + int) \<times> 'w"

datatype build_step = Println string | ReadDir string | Metadata string | Run build_command

record 'w build_sys =
  os_world :: 'w
  steps :: "build_step list"

definition take_step :: "build_step \<Rightarrow> ('w \<Rightarrow> ('e + 'a) \<times> 'w) \<Rightarrow> ('w build_sys, 'e, 'a) action" where
  "take_step st f = (\<lambda>s. case f (os_world s) of (x, w) \<Rightarrow>
     (case x of Inl e \<Rightarrow> Err e | Inr a \<Rightarrow> Ok a, s\<lparr>os_world := w, steps := steps s @ [st]\<rparr>))"

section \<open>The script\<close>

definition BUILD_IMAGES_ENV :: string where
  "BUILD_IMAGES_ENV = ''DOCKERTEST_BUILD_TEST_IMAGES''"

text \<open>
  \<open>Path::file_stem\<close>: the name without what follows its last dot, unless that is its first character.
\<close>

definition file_stem :: "string \<Rightarrow> string option" where
  "file_stem name = (if name = ''..'' then None
     else Some (case split_once (CHR ''.'') (rev name) of
         None \<Rightarrow> name
       | Some (_, before) \<Rightarrow> if before = [] then name else rev before))"

definition docker_build :: "string \<Rightarrow> string \<Rightarrow> build_command" where
  "docker_build repository name =
     \<lparr>bc_dir = ''dockerfiles'', bc_program = ''docker'',
      bc_args = [''build'', ''-t'', repository, ''-f'', name, ''.'']\<rparr>"

fun build_images :: "'w os \<Rightarrow> (string + string) list \<Rightarrow> ('w build_sys, string, unit) action" where
  "build_images h [] = returnR ()"
| "build_images h (Inl e # rest) = failR e"
| "build_images h (Inr name # rest) =
     bindR (take_step (Metadata name) (os_metadata h name)) (\<lambda>is_dir.
     if is_dir then build_images h rest
     else case file_stem name of
         None \<Rightarrow> panicR ''missing filename''
       | Some stem \<Rightarrow>
           let command = docker_build (''dockertest-rs/'' @ stem) name in
           matchR (take_step (Run command) (os_output h command))
             (\<lambda>_. build_images h rest)
             (\<lambda>_. panicR ''failed to build docker image''))"

definition build_main :: "'w os \<Rightarrow> ('w build_sys, string, unit) action" where
  "build_main h =
     bindR (take_step (Println (''cargo:rerun-if-env-changed='' @ BUILD_IMAGES_ENV)) (\<lambda>w. (Inr (), w))) (\<lambda>_.
     let build_enabled = (case os_var h BUILD_IMAGES_ENV of
           Some v \<Rightarrow> utf8_valid v \<and> v = ''1'' | None \<Rightarrow> False) in
     if build_enabled
     then bindR (take_step (ReadDir ''dockerfiles'') (os_read_dir h ''dockerfiles'')) (build_images h)
     else returnR ())"

section \<open>What is built\<close>

definition commands_of :: "build_step list \<Rightarrow> build_command list" where
  "commands_of ss = List.map_filter (\<lambda>st. case st of Run c \<Rightarrow> Some c | _ \<Rightarrow> None) ss"

lemma commands_of_append [simp]: "commands_of (xs @ ys) = commands_of xs @ commands_of ys"
  by (induction xs) (auto simp: commands_of_def map_filter_simps split: build_step.split option.split)

lemma commands_of_simps [simp]:
  "commands_of [] = []" "commands_of [Run c] = [c]" "commands_of [Println x] = []"
  "commands_of [ReadDir x] = []" "commands_of [Metadata x] = []"
  by (simp_all add: commands_of_def map_filter_simps)

lemma file_stem_extension:
  assumes "stem \<noteq> []" and "CHR ''.'' \<notin> set ext" and "ext \<noteq> []"
  shows "file_stem (stem @ ''.'' @ ext) = Some stem"
proof -
  have "split_once (CHR ''.'') (rev (stem @ ''.'' @ ext)) = Some (rev ext, rev stem)"
    using split_once_append [of "CHR ''.''" "rev ext" "rev stem"] assms(2) by simp
  moreover have "stem @ ''.'' @ ext \<noteq> ''..''"
    using assms by (cases stem; cases ext) auto
  ultimately show ?thesis using assms(1) by (simp add: file_stem_def)
qed

text \<open>The command that builds the image of a file.\<close>

definition image_of :: "string \<Rightarrow> build_command" where
  "image_of name = docker_build (''dockertest-rs/'' @ the (file_stem name)) name"

text \<open>
  A run of the script that succeeds has looked at every entry of the folder and run one build for each
  that is no folder, in their order; whether a build has itself succeeded makes no difference.
\<close>

lemma build_images_Ok:
  assumes "build_images h entries s = (Ok (), s')"
  shows "\<exists>names dirs. entries = map Inr names \<and> length dirs = length names
    \<and> commands_of (steps s') = commands_of (steps s) @ map (image_of \<circ> fst) (filter (Not \<circ> snd) (zip names dirs))"
  using assms
proof (induction entries arbitrary: s)
  case Nil
  then show ?case by (simp add: returnR_def)
next
  case (Cons entry rest)
  then obtain name where name: "entry = Inr name" by (cases entry) (auto simp: failR_def)
  obtain d s1 where d: "take_step (Metadata name) (os_metadata h name) s = (Ok d, s1)"
    and r: "(if d then build_images h rest
       else case file_stem name of
         None \<Rightarrow> panicR ''missing filename''
       | Some stem \<Rightarrow>
           let command = docker_build (''dockertest-rs/'' @ stem) name in
           matchR (take_step (Run command) (os_output h command))
             (\<lambda>_. build_images h rest) (\<lambda>_. panicR ''failed to build docker image'')) s1 = (Ok (), s')"
    using Cons.prems name by (auto elim!: bindR_Ok)
  have looked: "commands_of (steps s1) = commands_of (steps s)"
    using d by (auto simp: take_step_def split: prod.splits)
  have "\<exists>s2. build_images h rest s2 = (Ok (), s')
    \<and> commands_of (steps s2) = commands_of (steps s) @ (if d then [] else [image_of name])"
  proof (cases d)
    case True
    with r looked show ?thesis by auto
  next
    case False
    with r obtain stem where "file_stem name = Some stem"
      by (cases "file_stem name") (auto simp: panicR_def)
    with r False looked show ?thesis
      by (auto simp: Let_def panicR_def image_of_def take_step_def elim!: matchR_cases split: prod.splits)
  qed
  then obtain s2 where s2: "build_images h rest s2 = (Ok (), s')"
    "commands_of (steps s2) = commands_of (steps s) @ (if d then [] else [image_of name])" by blast
  obtain names dirs where "rest = map Inr names" "length dirs = length names"
    "commands_of (steps s') = commands_of (steps s2) @ map (image_of \<circ> fst) (filter (Not \<circ> snd) (zip names dirs))"
    using Cons.IH [OF s2(1)] by blast
  with name s2(2) show ?case
    by (intro exI [of _ "name # names"] exI [of _ "d # dirs"]) (simp add: comp_def)
qed

text \<open>Without being asked to, the script only tells cargo which variable it depends on.\<close>

lemma build_main_disabled:
  assumes "os_var h BUILD_IMAGES_ENV \<noteq> Some ''1''"
  shows "build_main h s
    = (Ok (), s\<lparr>steps := steps s @ [Println ''cargo:rerun-if-env-changed=DOCKERTEST_BUILD_TEST_IMAGES'']\<rparr>)"
  using assms
  by (auto simp: build_main_def take_step_def returnR_def BUILD_IMAGES_ENV_def bindR_def matchR_def
      split: option.split)

end
