(* ===== verification/Spec2Isabelle.thy ===== *)
theory Spec2Isabelle
  imports Component_Examples Build
begin

text \<open>
  A model of dockertest, the Rust library in \<open>src/\<close> that runs a test against Docker containers: it
  creates and starts the containers a test describes, runs the body of the test, and tears down what
  it made. All source files named here are under \<open>src/src/\<close>.

  \<^bold>\<open>How the program works.\<close> A test is a list of compositions (\<open>composition.rs\<close>, built through
  \<open>specification.rs\<close> and \<open>dockertest.rs\<close>). \<open>runner.rs\<close> takes it through its life: it names the
  containers, networks and volumes, pulls the images, and drives the phases of \<open>engine.rs\<close>:
  bootstrapping (the handles), fueling (injecting names), igniting (creating), orbiting (starting,
  inspecting, the body), debris (logs and removal). Each phase talks to the daemon through \<open>docker/\<close>.
  Containers that several tests share live in process-wide registries, \<open>static_container/\<close>: internal
  ones, created by the first user and removed by the last; external ones, never created; and dynamic
  ones, created when missing. A fourth registry holds the network of each namespace.

  \<^bold>\<open>How it is modelled.\<close> An asynchronous function that may fail is an \<open>action\<close> of \<open>Prelude\<close>: a function
  from the state to a result, which is a value, an error or a panic, and a new state. The state \<open>sys\<close>
  (\<open>State\<close>) holds the four registries, the cells behind the shared pointers of an image's id and of a
  container's assumed state, the world of the daemon, and the trace of the requests sent to it. The
  client of the daemon (the library bollard, whose streams send their request when they are first
  polled), its parsers of JSON and base64, the file system, the
  clock, the random numbers, the environment and a user's own readiness conditions are the record
  \<open>bollard\<close> (\<open>Client\<close>), a parameter of every definition that uses them. Panics are modelled where the
  source has \<open>unwrap\<close>, \<open>expect\<close>, indexing or checked arithmetic; integers keep their width. A hash map
  is an association list, which also fixes its order of iteration. A Rust string is its bytes.

  \<^bold>\<open>The theories\<close>, in the order of their imports:
  \<^item> \<open>Prelude\<close>: results and actions; the locale \<open>effect_order\<close>, whose rules carry every frame and trace
    argument ("leaves this registry alone", "sends only requests of this kind").
  \<^item> \<open>Strings\<close>, \<open>Errors\<close> (\<open>error.rs\<close>), \<open>State\<close>, \<open>Client\<close>: the data of the program and what it uses of the
    standard library: UTF-8, integer and IP address parsing.
  \<^item> \<open>Images\<close>, \<open>Compositions\<close>, \<open>Containers\<close>: \<open>image.rs\<close>, \<open>docker/image.rs\<close>; \<open>composition.rs\<close>,
    \<open>specification.rs\<close>, \<open>dockertest.rs\<close>; \<open>container/pending.rs\<close>, \<open>container/operational.rs\<close>.
  \<^item> \<open>Docker_Containers\<close>, \<open>Docker_Networks\<close>, \<open>Docker_Creation\<close>: the rest of \<open>docker/\<close>.
  \<^item> \<open>Waiting\<close>, \<open>Polling\<close>: \<open>waitfor/\<close>. The contract of the trait is the locale \<open>wait_for_trait\<close>, interpreted
    on each implementation; that a user's own one keeps it is the hypothesis \<open>lawful_waits\<close>.
  \<^item> \<open>Operations\<close>: what a test body does to a container (\<open>pause\<close>, \<open>unpause\<close>, \<open>kill\<close>), as a step relation
    that refines the abstract conversation.
  \<^item> \<open>Registry\<close>: the locale \<open>create_once\<close>, the contract of a registry that asks for each thing once;
    interpreted by \<open>Internal_Containers\<close> and \<open>Scoped_Networks\<close>.
  \<^item> \<open>Internal_Containers\<close>, \<open>Reference_Counting\<close>, \<open>Sharing\<close>: \<open>static_container/internal.rs\<close>, its operations
    with a specification of each on the map, the interleavings of concurrent tests, and the counter.
  \<^item> \<open>External_Containers\<close>, \<open>Dynamic_Containers\<close>, \<open>Static_Containers\<close>, \<open>Scoped_Networks\<close>: the other
    registries, \<open>docker/static_container.rs\<close> and the dispatch of \<open>static_container/mod.rs\<close>.
  \<^item> \<open>Cleanup\<close>, \<open>Engine\<close>, \<open>Runner\<close>, \<open>Connection\<close>: \<open>container/cleanup.rs\<close>, \<open>engine.rs\<close> with \<open>utils.rs\<close>,
    \<open>runner.rs\<close>, and the entry points in \<open>dockertest.rs\<close> with \<open>docker/mod.rs\<close>.
  \<^item> \<open>Placing\<close>, \<open>Starting\<close>, \<open>Start_Once\<close>: the start phase over the locale \<open>keeping_starts\<close> and its extensions
    \<open>starting\<close>, interpreted on the consistency of the registries, and \<open>starting_once\<close>, which counts.
  \<^item> \<open>Phases\<close>, \<open>Teardown\<close>, \<open>Lifecycle\<close>: what the single phases may do, the requests of the teardown, and
    the ways through a whole run.
  \<^item> \<open>Handles\<close>, \<open>Resources\<close>, \<open>Left_Alone\<close>, \<open>Pulling\<close>, \<open>Ports\<close>, \<open>Logs\<close>, \<open>Outcome\<close>, \<open>History\<close>, \<open>Passing\<close>:
    properties across components, of the tests of a process, one after the other, and of a passing one.
  \<^item> \<open>Build\<close>: the build script, \<open>build.rs\<close> beside \<open>src/\<close>, and which images it builds.
  \<^item> \<open>Sample\<close>, \<open>Examples\<close>, \<open>Run_Examples\<close>, \<open>Component_Examples\<close>: a concrete daemon, and every property
    with hypotheses applied to a run on it.

  \<^bold>\<open>What is shown.\<close> Of a whole test: that its own containers are removed however it ends, the exact
  requests of its teardown (joined ones in any order) for every prune strategy, those for the static
  containers included, that its outcome is that of its first failing phase, that it removes no network
  or volume of anybody else and neither stops nor removes an external container, that a handle leads to
  the right container, and that a test which passes has gone through every phase and run its body, in the
  state they left, on all its containers. Of the phases: order
  and indices are kept, each container has the form of its phase and is started exactly once whatever
  the schedule, strict ones in order, and names are injected correctly. Of the registries: a container
  handed out for removal has no user, counters cover users, creation happens once, and the registries
  stay consistent over any history of tests. Of the rest: the create request, the pull decision, the
  port round trip, the readiness conditions, log forwarding, and the state machine of the body's
  operations. Where the code does otherwise than its documentation says, as for the lock of the singular
  network and for a dynamic container that is found stopped, the property states what the code does.

  \<^bold>\<open>Schedules and termination.\<close> Futures that are joined, as in the pulls, the creations and the
  requests of the teardown, run in an order that the parameter \<open>join_order\<close> chooses, each to its end, and
  their results stand in the order of the list (\<open>join_all\<close> of \<open>Prelude\<close>). The spawned starts of relaxed
  containers run when a \<open>schedule\<close> says so: an arbitrary list of task numbers before each strict start
  and before they are joined, and, when a strict start has failed and left them detached, before the
  logs, before the teardown and after it. A start that has been chosen runs to its end. The properties
  hold for all orders and schedules. Operations on a registry run under its lock and are one action;
  \<open>Reference_Counting\<close> and \<open>Registry\<close> interleave them freely.
  No definition uses fuel: the polling loop terminates because its 64 bit counter stays below
  \<open>max_checks\<close>, and all other loops recurse over data.

  \<^bold>\<open>Not modelled.\<close> The threads of the runtime, tracing output, and the variants for Windows and macOS.
  Joined futures and detached starts do not interleave inside one another, and a detached start that
  overlaps the teardown is ordered before or after all of its requests. The closure of a test is taken
  to make its future without panicking. A \<open>select!\<close> whose branches are ready at the same instant takes
  the data. Lower-casing of the prune strategy is that of ASCII. What is left of the sources is getters,
  derived traits, documentation and the tests.
\<close>

end
